theory Spec2Isabelle
  imports Complex_Main "HOL-Library.Char_ord"
begin

section \<open>Characters and strings\<close>

text \<open>
  Python strings are sequences of code points. The model works with the code points U+0000 to
  U+00FF, one \<open>char\<close> each, and gives every character class the members Python 3 gives it in
  that range: \<open>str.lower\<close>, \<open>str.isupper\<close>, \<open>str.isdigit\<close>, \<open>str.isspace\<close> and the
  classes \<open>\s\<close>, \<open>\d\<close>, \<open>\w\<close> of the \<open>re\<close> module in its default (Unicode) mode. In this range
  \<open>str.lower\<close> maps one character to one character.
\<close>

definition in_range :: "char \<Rightarrow> char \<Rightarrow> char \<Rightarrow> bool" where
  "in_range lo hi c \<longleftrightarrow> lo \<le> c \<and> c \<le> hi"

definition is_upper :: "char \<Rightarrow> bool" where
  "is_upper c \<longleftrightarrow> in_range CHR ''A'' CHR ''Z'' c
     \<or> in_range (CHR 0xC0) (CHR 0xD6) c \<or> in_range (CHR 0xD8) (CHR 0xDE) c"

definition is_lower_with_upper :: "char \<Rightarrow> bool" where
  "is_lower_with_upper c \<longleftrightarrow> in_range CHR ''a'' CHR ''z'' c
     \<or> in_range (CHR 0xE0) (CHR 0xF6) c \<or> in_range (CHR 0xF8) (CHR 0xFE) c"

definition lower_char :: "char \<Rightarrow> char" where
  "lower_char c = (if is_upper c then char_of (of_char c + (32::nat)) else c)"

definition upper_char :: "char \<Rightarrow> char" where
  "upper_char c = (if is_lower_with_upper c then char_of (of_char c - (32::nat)) else c)"

definition is_space :: "char \<Rightarrow> bool" where
  "is_space c \<longleftrightarrow> in_range (CHR 0x09) (CHR 0x0D) c \<or> in_range (CHR 0x1C) (CHR 0x20) c
     \<or> c = CHR 0x85 \<or> c = CHR 0xA0"

definition is_decimal :: "char \<Rightarrow> bool" where
  "is_decimal c \<longleftrightarrow> in_range CHR ''0'' CHR ''9'' c"

text \<open>\<open>str.isdigit\<close> also accepts the superscript digits U+00B2, U+00B3 and U+00B9.\<close>

definition is_digit :: "char \<Rightarrow> bool" where
  "is_digit c \<longleftrightarrow> is_decimal c \<or> c = CHR 0xB2 \<or> c = CHR 0xB3 \<or> c = CHR 0xB9"

definition is_word :: "char \<Rightarrow> bool" where
  "is_word c \<longleftrightarrow> in_range CHR ''a'' CHR ''z'' c \<or> in_range CHR ''A'' CHR ''Z'' c
     \<or> is_decimal c \<or> c = CHR ''_''
     \<or> c = CHR 0xAA \<or> c = CHR 0xB2 \<or> c = CHR 0xB3 \<or> c = CHR 0xB5 \<or> c = CHR 0xB9
     \<or> c = CHR 0xBA \<or> in_range (CHR 0xBC) (CHR 0xBE) c
     \<or> in_range (CHR 0xC0) (CHR 0xD6) c \<or> in_range (CHR 0xD8) (CHR 0xF6) c
     \<or> in_range (CHR 0xF8) (CHR 0xFF) c"

definition nl :: char where
  "nl = CHR 0x0A"

definition lower :: "string \<Rightarrow> string" where
  "lower s = map lower_char s"

text \<open>\<open>str.strip()\<close>.\<close>

definition strip :: "string \<Rightarrow> string" where
  "strip s = rev (dropWhile is_space (rev (dropWhile is_space s)))"

text \<open>\<open>s.split(sep)\<close> for a separator of one character: empty pieces are kept.\<close>

fun split_on :: "char \<Rightarrow> string \<Rightarrow> string list" where
  "split_on sep [] = [[]]"
| "split_on sep (c # cs) =
     (if c = sep then [] # split_on sep cs
      else (case split_on sep cs of [] \<Rightarrow> [[c]] | w # ws \<Rightarrow> (c # w) # ws))"

text \<open>\<open>s.split()\<close>: pieces between runs of whitespace, none of them empty.\<close>

fun split_ws_from :: "string \<Rightarrow> string \<Rightarrow> string list" where
  "split_ws_from cur [] = (if cur = [] then [] else [rev cur])"
| "split_ws_from cur (c # cs) =
     (if is_space c then (if cur = [] then split_ws_from [] cs else rev cur # split_ws_from [] cs)
      else split_ws_from (c # cur) cs)"

definition split_ws :: "string \<Rightarrow> string list" where
  "split_ws s = split_ws_from [] s"

text \<open>\<open>sep.join(xs)\<close>.\<close>

fun join :: "string \<Rightarrow> string list \<Rightarrow> string" where
  "join sep [] = []"
| "join sep [x] = x"
| "join sep (x # y # ys) = x @ sep @ join sep (y # ys)"

fun is_prefix :: "string \<Rightarrow> string \<Rightarrow> bool" where
  "is_prefix [] s = True"
| "is_prefix (p # ps) [] = False"
| "is_prefix (p # ps) (c # cs) = (p = c \<and> is_prefix ps cs)"

text \<open>\<open>sub in s\<close> for strings.\<close>

fun contains :: "string \<Rightarrow> string \<Rightarrow> bool" where
  "contains [] sub = (sub = [])"
| "contains (c # cs) sub = (is_prefix sub (c # cs) \<or> contains cs sub)"

text \<open>\<open>int(s)\<close> on a string of decimal digits.\<close>

definition digit_val :: "char \<Rightarrow> nat" where
  "digit_val c = of_char c - 48"

definition int_of_digits :: "string \<Rightarrow> nat" where
  "int_of_digits s = foldl (\<lambda>n c. 10 * n + digit_val c) 0 s"

section \<open>Regular expressions\<close>

text \<open>
  The subset of Python's \<open>re\<close> syntax that the patterns of the repository use, as a datatype,
  and a backtracking matcher that explores alternatives in the order the \<open>re\<close> module does:
  the left branch of \<open>|\<close> first, and as many iterations of a greedy quantifier as possible
  first. \<open>Cls\<close> is a bracketed class (or one of \<open>\d\<close>, \<open>\s\<close>), \<open>Lit\<close> a run of literal
  characters, \<open>Bnd\<close> is \<open>\b\<close>, \<open>Bol\<close> is \<open>^\<close>, \<open>Eol\<close> is \<open>$\<close>, \<open>Rep m n\<close> is the greedy
  quantifier \<open>{m,n}\<close> (\<open>n = None\<close>: unbounded) and \<open>Grp k\<close> is the capturing group number \<open>k\<close>.
\<close>

datatype citem = Ch char | Rng char char | Dig | Spc

datatype regex =
    Cls "citem list"
  | Lit string
  | Dot
  | Bnd
  | Bol
  | Eol
  | Seq regex regex
  | Alt regex regex
  | Rep nat "nat option" regex
  | Grp nat regex

fun citem_holds :: "citem \<Rightarrow> char \<Rightarrow> bool" where
  "citem_holds (Ch d) c = (c = d)"
| "citem_holds (Rng lo hi) c = in_range lo hi c"
| "citem_holds Dig c = is_decimal c"
| "citem_holds Spc c = is_space c"

definition in_class :: "citem list \<Rightarrow> char \<Rightarrow> bool" where
  "in_class its c = list_ex (\<lambda>i. citem_holds i c) its"

text \<open>
  With \<open>re.IGNORECASE\<close> (the flag \<open>ic\<close>) a character matches a class when it or its other
  case is a member, and matches a literal when both have the same lower case.
\<close>

definition class_match :: "bool \<Rightarrow> citem list \<Rightarrow> char \<Rightarrow> bool" where
  "class_match ic its c \<longleftrightarrow>
     in_class its c \<or> (ic \<and> (in_class its (lower_char c) \<or> in_class its (upper_char c)))"

definition lit_match :: "bool \<Rightarrow> char \<Rightarrow> char \<Rightarrow> bool" where
  "lit_match ic d c \<longleftrightarrow> (if ic then lower_char c = lower_char d else c = d)"

text \<open>
  A matcher state is a position in the subject: the text before it (reversed, nearest
  character first), the text after it, and the groups captured so far.
\<close>

type_synonym mstate = "string \<times> string \<times> (nat \<times> string) list"

fun at_boundary :: "string \<Rightarrow> string \<Rightarrow> bool" where
  "at_boundary [] [] = False"
| "at_boundary [] (c # r) = is_word c"
| "at_boundary (p # l) [] = is_word p"
| "at_boundary (p # l) (c # r) = (is_word p \<noteq> is_word c)"

fun lit_run :: "bool \<Rightarrow> string \<Rightarrow> string \<Rightarrow> string \<Rightarrow> (string \<times> string) option" where
  "lit_run ic [] l r = Some (l, r)"
| "lit_run ic (d # ds) l [] = None"
| "lit_run ic (d # ds) l (c # r) = (if lit_match ic d c then lit_run ic ds (c # l) r else None)"

definition dec_max :: "nat option \<Rightarrow> nat option" where
  "dec_max n = (case n of None \<Rightarrow> None | Some k \<Rightarrow> Some (k - 1))"

text \<open>
  \<open>rx ic a s\<close> lists the states in which a match of \<open>a\<close> started at \<open>s\<close> can end, in the
  matcher's order of preference. Every quantified subpattern of the repository consumes at
  least one character per iteration; the matcher keeps only such iterations.
\<close>

function rx :: "bool \<Rightarrow> regex \<Rightarrow> mstate \<Rightarrow> mstate list" where
  "rx ic (Cls its) (l, r, g) =
     (case r of [] \<Rightarrow> [] | c # r' \<Rightarrow> (if class_match ic its c then [(c # l, r', g)] else []))"
| "rx ic (Lit ds) (l, r, g) =
     (case lit_run ic ds l r of None \<Rightarrow> [] | Some (l', r') \<Rightarrow> [(l', r', g)])"
| "rx ic Dot (l, r, g) =
     (case r of [] \<Rightarrow> [] | c # r' \<Rightarrow> (if c \<noteq> nl then [(c # l, r', g)] else []))"
| "rx ic Bnd (l, r, g) = (if at_boundary l r then [(l, r, g)] else [])"
| "rx ic Bol (l, r, g) = (if l = [] then [(l, r, g)] else [])"
| "rx ic Eol (l, r, g) = (if r = [] \<or> r = [nl] then [(l, r, g)] else [])"
| "rx ic (Seq a b) s = concat (map (rx ic b) (rx ic a s))"
| "rx ic (Alt a b) s = rx ic a s @ rx ic b s"
| "rx ic (Rep m n a) (l, r, g) =
     (if n = Some 0 then [(l, r, g)]
      else concat (map (rx ic (Rep (m - 1) (dec_max n) a))
                    (filter (\<lambda>s'. length (fst (snd s')) < length r) (rx ic a (l, r, g))))
           @ (if m = 0 then [(l, r, g)] else []))"
| "rx ic (Grp k a) (l, r, g) =
     map (\<lambda>(l', r', g'). (l', r', (k, rev (take (length l' - length l) l')) # g'))
         (rx ic a (l, r, g))"
  by pat_completeness auto
termination
  by (relation "measures [\<lambda>(ic, a, s). size a, \<lambda>(ic, a, l, r, g). length r]") auto

text \<open>The equation of the quantifier unfolds without end; it is used by name.\<close>

declare rx.simps(9) [simp del]

definition rplus :: "regex \<Rightarrow> regex" where
  "rplus a = Rep 1 None a"

definition rstar :: "regex \<Rightarrow> regex" where
  "rstar a = Rep 0 None a"

definition ropt :: "regex \<Rightarrow> regex" where
  "ropt a = Rep 0 (Some 1) a"

fun seqs :: "regex list \<Rightarrow> regex" where
  "seqs [] = Lit []"
| "seqs [a] = a"
| "seqs (a # b # bs) = Seq a (seqs (b # bs))"

fun alts :: "regex list \<Rightarrow> regex" where
  "alts [] = Cls []"
| "alts [a] = a"
| "alts (a # b # bs) = Alt a (alts (b # bs))"

text \<open>A match: the state where it starts and the state where it ends.\<close>

type_synonym rmatch = "mstate \<times> mstate"

text \<open>\<open>match.group()\<close>, \<open>match.start()\<close>, \<open>match.end()\<close> and \<open>match.group(k)\<close>.\<close>

definition m_group0 :: "rmatch \<Rightarrow> string" where
  "m_group0 m = (case m of ((l, r, g), (l', r', g')) \<Rightarrow> rev (take (length l' - length l) l'))"

definition m_start :: "rmatch \<Rightarrow> nat" where
  "m_start m = (case m of ((l, r, g), e) \<Rightarrow> length l)"

definition m_end :: "rmatch \<Rightarrow> nat" where
  "m_end m = (case m of (s, (l', r', g')) \<Rightarrow> length l')"

definition m_group :: "rmatch \<Rightarrow> nat \<Rightarrow> string option" where
  "m_group m k = (case m of (s, (l', r', g')) \<Rightarrow> map_of g' k)"

text \<open>\<open>re.match\<close>: a match that starts at the beginning of the subject.\<close>

definition rx_match :: "bool \<Rightarrow> regex \<Rightarrow> string \<Rightarrow> rmatch option" where
  "rx_match ic a t = (case rx ic a ([], t, []) of [] \<Rightarrow> None | e # _ \<Rightarrow> Some (([], t, []), e))"

text \<open>\<open>re.search\<close>: the first position, left to right, at which the pattern matches.\<close>

fun search_from :: "bool \<Rightarrow> regex \<Rightarrow> string \<Rightarrow> string \<Rightarrow> rmatch option" where
  "search_from ic a l [] =
     (case rx ic a (l, [], []) of e # _ \<Rightarrow> Some ((l, [], []), e) | [] \<Rightarrow> None)"
| "search_from ic a l (c # r) =
     (case rx ic a (l, c # r, []) of
        e # _ \<Rightarrow> Some ((l, c # r, []), e)
      | [] \<Rightarrow> search_from ic a (c # l) r)"

definition search :: "bool \<Rightarrow> regex \<Rightarrow> string \<Rightarrow> rmatch option" where
  "search ic a t = search_from ic a [] t"

text \<open>
  \<open>re.finditer\<close>: the successive matches, each search starting where the last match ended.
  Every pattern the repository passes to \<open>finditer\<close>, \<open>findall\<close>, \<open>sub\<close> or \<open>split\<close>
  matches at least one character; after a match of no character the model moves on by one.
\<close>

function find_from :: "bool \<Rightarrow> regex \<Rightarrow> string \<Rightarrow> string \<Rightarrow> rmatch list" where
  "find_from ic a l r =
     (case search_from ic a l r of
        None \<Rightarrow> []
      | Some (s, (l', r', g')) \<Rightarrow>
          (s, (l', r', g')) #
            (if length r' < length r then find_from ic a l' r'
             else (case r of [] \<Rightarrow> [] | c # rr \<Rightarrow> find_from ic a (c # l) rr)))"
  by pat_completeness auto
termination
  by (relation "measure (\<lambda>(ic, a, l, r). length r)") auto

declare find_from.simps [simp del]

definition finditer :: "bool \<Rightarrow> regex \<Rightarrow> string \<Rightarrow> rmatch list" where
  "finditer ic a t = find_from ic a [] t"

text \<open>\<open>re.findall\<close> for a pattern without capturing groups: the matched strings.\<close>

definition findall :: "bool \<Rightarrow> regex \<Rightarrow> string \<Rightarrow> string list" where
  "findall ic a t = map m_group0 (finditer ic a t)"

text \<open>The text between two positions of one subject, the first one further left.\<close>

definition between :: "string \<Rightarrow> string \<Rightarrow> string" where
  "between r rs = take (length r - length rs) r"

text \<open>\<open>re.sub(pattern, repl, t)\<close> for a replacement without group references.\<close>

function sub_from :: "bool \<Rightarrow> regex \<Rightarrow> string \<Rightarrow> string \<Rightarrow> string \<Rightarrow> string" where
  "sub_from ic a repl l r =
     (case search_from ic a l r of
        None \<Rightarrow> r
      | Some ((ls, rs, gs), (l', r', g')) \<Rightarrow>
          between r rs @ repl @
            (if length r' < length r then sub_from ic a repl l' r'
             else (case r of [] \<Rightarrow> [] | c # rr \<Rightarrow> c # sub_from ic a repl (c # l) rr)))"
  by pat_completeness auto
termination
  by (relation "measure (\<lambda>(ic, a, repl, l, r). length r)") auto

definition rx_sub :: "bool \<Rightarrow> regex \<Rightarrow> string \<Rightarrow> string \<Rightarrow> string" where
  "rx_sub ic a repl t = sub_from ic a repl [] t"

text \<open>\<open>re.split(pattern, t)\<close> for a pattern without capturing groups.\<close>

function split_from :: "bool \<Rightarrow> regex \<Rightarrow> string \<Rightarrow> string \<Rightarrow> string list" where
  "split_from ic a l r =
     (case search_from ic a l r of
        None \<Rightarrow> [r]
      | Some ((ls, rs, gs), (l', r', g')) \<Rightarrow>
          (if length r' < length r then between r rs # split_from ic a l' r'
           else [r]))"
  by pat_completeness auto
termination
  by (relation "measure (\<lambda>(ic, a, l, r). length r)") auto

definition rx_split :: "bool \<Rightarrow> regex \<Rightarrow> string \<Rightarrow> string list" where
  "rx_split ic a t = split_from ic a [] t"

section \<open>The structured profile\<close>

text \<open>
  The dictionaries built by \<open>EnhancedParser.parse\<close> (app/services/enhanced_parser.py) and read
  by \<open>MatchingService\<close> (app/services/matching_service.py). A field that holds either a string
  or Python's \<open>None\<close> is a \<open>string option\<close>; a key that is missing from a stored dictionary
  reads through \<open>dict.get\<close> with its default, which is \<open>None\<close> for the confidence scorer.
\<close>

record personal_info =
  full_name :: "string option"
  email :: "string option"
  phone :: "string option"
  location :: "string option"
  linkedin :: "string option"
  github :: "string option"

record experience_entry =
  title :: "string option"
  company :: "string option"
  start_date :: "string option"
  end_date :: "string option"
  description :: string
  achievements :: "string list"
  technologies :: "string list"

record education_entry =
  degree :: "string option"
  institution :: "string option"
  year :: "string option"
  field :: "string option"
  gpa :: "string option"
  honors :: "string list"

record parsed_data =
  personal :: personal_info
  experience :: "experience_entry list"
  education :: "education_entry list"
  skills :: "string list"
  summary :: "string option"
  certifications :: "string list"
  languages :: "string list"

text \<open>The exceptions that the modelled code can raise.\<close>

datatype error = AttributeError | ZeroDivisionError | ValueError | OverflowError

text \<open>Python truthiness of an optional string: \<open>None\<close> and \<open>""\<close> are false.\<close>

fun truthy :: "string option \<Rightarrow> bool" where
  "truthy None = False"
| "truthy (Some s) = (s \<noteq> [])"

section \<open>The confidence scorer\<close>

text \<open>
  \<open>EnhancedParser._calculate_confidence_enhanced\<close>. The source accumulates a float that only
  ever receives whole numbers, so the arithmetic is exact and \<open>round(min(100.0, score), 1)\<close>
  changes nothing but the clamp; the model computes in \<open>int\<close>.
\<close>

definition exp_points_of :: "experience_entry \<Rightarrow> int" where
  "exp_points_of e =
     (if truthy (title e) then 5 else 0)
   + (if truthy (company e) then 3 else 0)
   + (if truthy (start_date e) \<or> truthy (end_date e) then 2 else 0)"

definition edu_points_of :: "education_entry \<Rightarrow> int" where
  "edu_points_of e =
     (if truthy (degree e) then 8 else 0)
   + (if truthy (institution e) then 6 else 0)
   + (if truthy (year e) then 6 else 0)"

definition personal_points :: "personal_info \<Rightarrow> int" where
  "personal_points p =
     (if truthy (full_name p) then 10 else 0)
   + (if truthy (email p) then 10 else 0)
   + (if truthy (phone p) then 10 else 0)"

definition experience_points :: "experience_entry list \<Rightarrow> int" where
  "experience_points es = (if es \<noteq> [] then min 30 (sum_list (map exp_points_of es)) else 0)"

definition education_points :: "education_entry list \<Rightarrow> int" where
  "education_points es = (if es \<noteq> [] then min 20 (sum_list (map edu_points_of es)) else 0)"

definition skills_points :: "string list \<Rightarrow> int" where
  "skills_points ss =
     (if ss \<noteq> [] then
        (if length ss \<ge> 10 then 20
         else if length ss \<ge> 5 then 15
         else if length ss \<ge> 3 then 10
         else int (length ss) * 3)
      else 0)"

definition summary_points :: "string option \<Rightarrow> int" where
  "summary_points s = (case s of Some t \<Rightarrow> (if length t > 50 then 5 else 0) | None \<Rightarrow> 0)"

definition bonus_points :: "string list \<Rightarrow> int" where
  "bonus_points xs = (if xs \<noteq> [] then min 5 (int (length xs) * 2) else 0)"

text \<open>The sum of weighted points before the floor rule and the clamp.\<close>

definition raw_score :: "parsed_data \<Rightarrow> int" where
  "raw_score d =
     personal_points (personal d)
   + experience_points (experience d)
   + education_points (education d)
   + skills_points (skills d)
   + summary_points (summary d)
   + bonus_points (languages d)
   + bonus_points (certifications d)"

text \<open>The fields the source inspects to decide whether any data was extracted.\<close>

definition has_any_data :: "parsed_data \<Rightarrow> bool" where
  "has_any_data d \<longleftrightarrow>
     truthy (full_name (personal d)) \<or> truthy (email (personal d)) \<or> truthy (phone (personal d))
   \<or> experience d \<noteq> [] \<or> education d \<noteq> [] \<or> skills d \<noteq> [] \<or> truthy (summary d)"

definition calculate_confidence_enhanced :: "parsed_data \<Rightarrow> int" where
  "calculate_confidence_enhanced d =
     (let score = raw_score d;
          score = (if score = 0 then (if has_any_data d then 10 else 0) else score)
      in min 100 score)"

text \<open>A profile whose every field is empty, and the same profile with a single field set.\<close>

definition empty_personal :: personal_info where
  "empty_personal = \<lparr>full_name = None, email = None, phone = None,
                      location = None, linkedin = None, github = None\<rparr>"

definition empty_profile :: parsed_data where
  "empty_profile = \<lparr>personal = empty_personal, experience = [], education = [], skills = [],
                     summary = None, certifications = [], languages = []\<rparr>"

section \<open>The section locator\<close>

text \<open>\<open>\n\s*[A-Z][A-Z\s]{10,}|\n\s*\d+\.|\n\s*[A-Z]+\s*:\<close>\<close>

definition end_pattern :: regex where
  "end_pattern = alts
     [seqs [Lit [nl], rstar (Cls [Spc]), Cls [Rng CHR ''A'' CHR ''Z''],
            Rep 10 None (Cls [Rng CHR ''A'' CHR ''Z'', Spc])],
      seqs [Lit [nl], rstar (Cls [Spc]), rplus (Cls [Dig]), Lit ''.''],
      seqs [Lit [nl], rstar (Cls [Spc]), rplus (Cls [Rng CHR ''A'' CHR ''Z'']),
            rstar (Cls [Spc]), Lit '':'']]"

text \<open>\<open>r'\b' + re.escape(keyword) + r'\b'\<close>\<close>

definition word_pattern :: "string \<Rightarrow> regex" where
  "word_pattern keyword = seqs [Bnd, Lit keyword, Bnd]"

text \<open>
  \<open>EnhancedParser._find_section\<close>. The keyword is searched in the lowered text; the
  position where its match ends is then used in the text itself.
\<close>

fun find_section_in :: "string \<Rightarrow> string list \<Rightarrow> string option" where
  "find_section_in text [] = None"
| "find_section_in text (keyword # keywords) =
     (if keyword = [] then find_section_in text keywords
      else
        (case search True (word_pattern keyword) (lower text) of
           None \<Rightarrow> find_section_in text keywords
         | Some m \<Rightarrow>
             (let start_idx = m_end m;
                  rest = drop start_idx text
              in case search False end_pattern rest of
                   Some end_match \<Rightarrow> Some (take (m_start end_match) rest)
                 | None \<Rightarrow> Some (take 2000 rest))))"

definition find_section :: "string \<Rightarrow> string list \<Rightarrow> string option" where
  "find_section text keywords = (if text = [] then None else find_section_in text keywords)"


section \<open>The field extractors\<close>

text \<open>
  What the Structuring Engine takes from its surroundings. \<open>spacy_nlp\<close> is the spaCy
  pipeline, if a model could be loaded: it maps a text to the entities of \<open>doc.ents\<close>, or to
  \<open>None\<close> when the call raises (every call sits in a \<open>try\<close> block). \<open>transformer_ner\<close> is
  the transformers pipeline in the same way. \<open>set_order\<close> is the order in which the runtime
  enumerates a set of strings.
\<close>

record ner_entity =
  ent_text :: string
  ent_label :: string

record tf_entity =
  entity_group :: string
  word :: string
  tf_score :: rat

record parser_env =
  spacy_nlp :: "(string \<Rightarrow> ner_entity list option) option"
  transformer_ner :: "(string \<Rightarrow> tf_entity list option) option"
  set_order :: "string list \<Rightarrow> string list"

definition spacy_ents :: "parser_env \<Rightarrow> string \<Rightarrow> ner_entity list" where
  "spacy_ents env t =
     (case spacy_nlp env of
        None \<Rightarrow> []
      | Some nlp \<Rightarrow> (case nlp t of None \<Rightarrow> [] | Some ents \<Rightarrow> ents))"

text \<open>\<open>list(set(xs))\<close>: the distinct members of \<open>xs\<close>, in the order the runtime chooses.\<close>

definition list_of_set :: "parser_env \<Rightarrow> string list \<Rightarrow> string list" where
  "list_of_set env xs =
     (let ys = set_order env xs
      in if distinct ys \<and> set ys = set xs then ys else remdups xs)"

definition ebind :: "error + 'a \<Rightarrow> ('a \<Rightarrow> error + 'b) \<Rightarrow> error + 'b" where
  "ebind x f = (case x of Inl e \<Rightarrow> Inl e | Inr v \<Rightarrow> f v)"

text \<open>
  \<open>match.group(k).strip()\<close>: \<open>group(k)\<close> is \<open>None\<close> for a group that took no part in the
  match, and \<open>None.strip()\<close> raises.
\<close>

definition group_strip :: "rmatch \<Rightarrow> nat \<Rightarrow> error + string" where
  "group_strip m k = (case m_group m k of None \<Rightarrow> Inl AttributeError | Some g \<Rightarrow> Inr (strip g))"

definition AZ :: citem where "AZ = Rng CHR ''A'' CHR ''Z''"
definition az :: citem where "az = Rng CHR ''a'' CHR ''z''"
definition d09 :: citem where "d09 = Rng CHR ''0'' CHR ''9''"

definition lits :: "string list \<Rightarrow> regex" where
  "lits xs = alts (map Lit xs)"

definition digits :: "nat \<Rightarrow> regex" where
  "digits n = Rep n (Some n) (Cls [Dig])"

definition spaces :: regex where
  "spaces = rstar (Cls [Spc])"

definition spaces1 :: regex where
  "spaces1 = rplus (Cls [Spc])"

text \<open>\<open>_preprocess_text\<close>\<close>

definition preprocess_line :: "string \<Rightarrow> string option" where
  "preprocess_line line =
     (if line = [] then None
      else (let line' = rx_sub False (rplus (Cls [Ch CHR '' '', Ch (CHR 0x09)])) '' '' (strip line)
            in if line' \<noteq> [] then Some line' else None))"

definition preprocess_text :: "string \<Rightarrow> string" where
  "preprocess_text text =
     (if text = [] then []
      else (let cleaned_lines = List.map_filter preprocess_line (split_on nl text);
                cleaned = join [nl] cleaned_lines
            in rx_sub False (Rep 3 None (Lit [nl])) [nl, nl] cleaned))"

subsection \<open>Contact and identity\<close>

text \<open>\<open>\b[A-Za-z0-9._%+-]+@[A-Za-z0-9.-]+\.[A-Z|a-z]{2,}\b\<close>\<close>

definition email_pattern :: regex where
  "email_pattern = seqs [Bnd,
     rplus (Cls [AZ, az, d09, Ch CHR ''.'', Ch CHR ''_'', Ch CHR ''%'', Ch CHR ''+'', Ch CHR ''-'']),
     Lit ''@'',
     rplus (Cls [AZ, az, d09, Ch CHR ''.'', Ch CHR ''-'']),
     Lit ''.'',
     Rep 2 None (Cls [AZ, Ch CHR ''|'', az]),
     Bnd]"

definition extract_email :: "string \<Rightarrow> string option" where
  "extract_email original_text =
     (case findall False email_pattern original_text of [] \<Rightarrow> None | e # _ \<Rightarrow> Some e)"

text \<open>The class \<open>[-.\s]\<close> of the phone patterns.\<close>

definition phone_sep :: regex where
  "phone_sep = Cls [Ch CHR ''-'', Ch CHR ''.'', Spc]"

text \<open>
  \<open>\+?\d{1,3}[-.\s]?\(?\d{3}\)?[-.\s]?\d{3}[-.\s]?\d{4}\<close>,
  \<open>\+?\d{1,3}[-.\s]?\d{3}[-.\s]?\d{3}[-.\s]?\d{4}\<close>,
  \<open>\(\d{3}\)\s?\d{3}[-.\s]?\d{4}\<close> and \<open>\b\d{10}\b\<close>
\<close>

definition phone_patterns :: "regex list" where
  "phone_patterns =
     [seqs [ropt (Lit ''+''), Rep 1 (Some 3) (Cls [Dig]), ropt phone_sep, ropt (Lit ''(''),
            digits 3, ropt (Lit '')''), ropt phone_sep, digits 3, ropt phone_sep, digits 4],
      seqs [ropt (Lit ''+''), Rep 1 (Some 3) (Cls [Dig]), ropt phone_sep, digits 3,
            ropt phone_sep, digits 3, ropt phone_sep, digits 4],
      seqs [Lit ''('', digits 3, Lit '')'', ropt (Cls [Spc]), digits 3, ropt phone_sep, digits 4],
      seqs [Bnd, digits 10, Bnd]]"

text \<open>\<open>s[-1:].isdigit()\<close> and \<open>s[:1].isdigit()\<close>\<close>

definition last_isdigit :: "string \<Rightarrow> bool" where
  "last_isdigit s \<longleftrightarrow> s \<noteq> [] \<and> is_digit (last s)"

definition first_isdigit :: "string \<Rightarrow> bool" where
  "first_isdigit s \<longleftrightarrow> (case s of [] \<Rightarrow> False | c # _ \<Rightarrow> is_digit c)"

text \<open>The test a phone match has to pass; the result is the accepted phone string.\<close>

definition check_phone :: "string \<Rightarrow> rmatch \<Rightarrow> string option" where
  "check_phone original_text m =
     (let phone_str = strip (m_group0 m)
      in if length phone_str = 10 \<and> \<not> is_prefix ''19'' phone_str \<and> \<not> is_prefix ''20'' phone_str
         then
           (let start = m_start m;
                end = m_end m;
                context_before = drop (start - 5) (take start original_text);
                context_after = take 5 (drop end original_text)
            in if \<not> (last_isdigit context_before \<or> first_isdigit context_after)
               then Some phone_str else None)
         else None)"

fun first_phone :: "string \<Rightarrow> rmatch list \<Rightarrow> string option" where
  "first_phone original_text [] = None"
| "first_phone original_text (m # ms) =
     (case check_phone original_text m of
        Some p \<Rightarrow> Some p
      | None \<Rightarrow> first_phone original_text ms)"

fun phone_loop :: "string \<Rightarrow> regex list \<Rightarrow> string option" where
  "phone_loop original_text [] = None"
| "phone_loop original_text (pattern # patterns) =
     (case first_phone original_text (finditer False pattern original_text) of
        Some p \<Rightarrow> Some p
      | None \<Rightarrow> phone_loop original_text patterns)"

definition extract_phone :: "string \<Rightarrow> string option" where
  "extract_phone original_text = phone_loop original_text phone_patterns"

text \<open>\<open>^([A-Z][a-z]+(?:\s+[A-Z][a-z]+){1,3})(?:\s|$|[,\n])\<close>\<close>

definition cap_word :: regex where
  "cap_word = Seq (Cls [AZ]) (rplus (Cls [az]))"

definition name_pattern :: regex where
  "name_pattern = seqs [Bol,
     Grp 1 (Seq cap_word (Rep 1 (Some 3) (Seq spaces1 cap_word))),
     alts [Cls [Spc], Eol, Cls [Ch CHR '','', Ch nl]]]"

text \<open>A name candidate: the text, its confidence and the strategy it comes from.\<close>

type_synonym candidate = "string \<times> rat \<times> string"

definition spacy_name_candidates :: "parser_env \<Rightarrow> string \<Rightarrow> candidate list" where
  "spacy_name_candidates env top_lines =
     map (\<lambda>e. (ent_text e, 9 / 10, ''spacy''))
       (filter (\<lambda>e. ent_label e = ''PERSON'' \<and> length (split_ws (ent_text e)) \<ge> 2
                   \<and> list_all (\<lambda>w. is_upper (hd w)) (take 2 (split_ws (ent_text e)))
                   \<and> length (ent_text e) < 50)
          (spacy_ents env top_lines))"

definition transformer_name_candidates :: "parser_env \<Rightarrow> string \<Rightarrow> candidate list" where
  "transformer_name_candidates env top_lines =
     (case transformer_ner env of
        None \<Rightarrow> []
      | Some ner \<Rightarrow>
          (case ner (take 500 top_lines) of
             None \<Rightarrow> []
           | Some entities \<Rightarrow>
               map (\<lambda>e. (strip (word e), tf_score e, ''transformer''))
                 (filter (\<lambda>e. entity_group e = ''PER'' \<and> length (split_ws (word e)) \<ge> 2
                             \<and> tf_score e > 8 / 10)
                    entities)))"

definition name_stop_words :: "string list" where
  "name_stop_words = [''inc'', ''llc'', ''corp'', ''company'', ''engineer'', ''manager'']"

definition pattern_name_candidates :: "string \<Rightarrow> error + candidate list" where
  "pattern_name_candidates cleaned_text =
     (let first_line = (if cleaned_text \<noteq> [] then hd (split_on nl cleaned_text) else [])
      in if first_line \<noteq> [] then
           (case search False name_pattern first_line of
              None \<Rightarrow> Inr []
            | Some m \<Rightarrow>
                ebind (group_strip m 1) (\<lambda>name_text.
                  Inr (if name_text \<noteq> []
                         \<and> \<not> list_ex (\<lambda>w. contains (lower name_text) (lower w)) name_stop_words
                       then [(name_text, 7 / 10, ''pattern'')] else [])))
         else Inr [])"

text \<open>
  \<open>name_candidates.sort(key=lambda x: (x[1], x[2] == "spacy"), reverse=True)\<close> followed by
  \<open>name_candidates[0]\<close>: the sort is stable, so the result is the first candidate whose key
  is largest.
\<close>

definition candidate_key_less :: "candidate \<Rightarrow> candidate \<Rightarrow> bool" where
  "candidate_key_less x y \<longleftrightarrow>
     fst (snd x) < fst (snd y)
     \<or> (fst (snd x) = fst (snd y) \<and> snd (snd x) \<noteq> ''spacy'' \<and> snd (snd y) = ''spacy'')"

fun best_candidate :: "candidate \<Rightarrow> candidate list \<Rightarrow> candidate" where
  "best_candidate b [] = b"
| "best_candidate b (c # cs) = best_candidate (if candidate_key_less b c then c else b) cs"

definition extract_name :: "parser_env \<Rightarrow> string \<Rightarrow> error + string option" where
  "extract_name env cleaned_text =
     (let top_lines = join [nl] (take 3 (split_on nl cleaned_text))
      in ebind (pattern_name_candidates cleaned_text) (\<lambda>from_pattern.
           (case spacy_name_candidates env top_lines
                 @ transformer_name_candidates env top_lines @ from_pattern of
              [] \<Rightarrow> Inr None
            | c # cs \<Rightarrow> Inr (Some (fst (best_candidate c cs))))))"

definition extract_location :: "parser_env \<Rightarrow> string \<Rightarrow> string option" where
  "extract_location env cleaned_text =
     (case filter (\<lambda>e. ent_label e = ''GPE'' \<or> ent_label e = ''LOC'')
             (spacy_ents env (take 500 cleaned_text)) of
        [] \<Rightarrow> None
      | e # _ \<Rightarrow> Some (ent_text e))"

text \<open>
  \<open>(?:linkedin\.com/in/|linkedin\.com/pub/)([a-zA-Z0-9-]+)\<close> and
  \<open>(?:github\.com/)([a-zA-Z0-9-]+)\<close>. In an f-string a group that is \<open>None\<close> prints as
  \<open>None\<close>.
\<close>

definition handle_chars :: regex where
  "handle_chars = rplus (Cls [az, AZ, d09, Ch CHR ''-''])"

definition linkedin_pattern :: regex where
  "linkedin_pattern = Seq (Alt (Lit ''linkedin.com/in/'') (Lit ''linkedin.com/pub/''))
                          (Grp 1 handle_chars)"

definition github_pattern :: regex where
  "github_pattern = Seq (Lit ''github.com/'') (Grp 1 handle_chars)"

definition format_group :: "rmatch \<Rightarrow> nat \<Rightarrow> string" where
  "format_group m k = (case m_group m k of None \<Rightarrow> ''None'' | Some g \<Rightarrow> g)"

definition extract_linkedin :: "string \<Rightarrow> string option" where
  "extract_linkedin original_text =
     map_option (\<lambda>m. ''linkedin.com/in/'' @ format_group m 1)
       (search True linkedin_pattern original_text)"

definition extract_github :: "string \<Rightarrow> string option" where
  "extract_github original_text =
     map_option (\<lambda>m. ''github.com/'' @ format_group m 1)
       (search True github_pattern original_text)"

definition extract_personal_info_enhanced ::
  "parser_env \<Rightarrow> string \<Rightarrow> string \<Rightarrow> error + personal_info" where
  "extract_personal_info_enhanced env cleaned_text original_text =
     ebind (extract_name env cleaned_text) (\<lambda>name.
       Inr \<lparr>full_name = name,
            email = extract_email original_text,
            phone = extract_phone original_text,
            location = extract_location env cleaned_text,
            linkedin = extract_linkedin original_text,
            github = extract_github original_text\<rparr>)"


subsection \<open>Experience\<close>

definition exp_keywords :: "string list" where
  "exp_keywords = [''experience'', ''work history'', ''employment history'', ''employment'',
     ''professional experience'', ''career'', ''work experience'', ''professional background'',
     ''employment background'', ''work background'', ''career history'', ''professional history'']"

definition months :: regex where
  "months = lits [''Jan'', ''Feb'', ''Mar'', ''Apr'', ''May'', ''Jun'', ''Jul'', ''Aug'', ''Sep'',
     ''Oct'', ''Nov'', ''Dec'']"

text \<open>\<open>\b(?:Jan|...|Dec)[a-z]*\s+\d{4}\<close>, the month-and-year shape shared by several patterns.\<close>

definition month_year :: regex where
  "month_year = seqs [Bnd, months, rstar (Cls [az]), spaces1, digits 4]"

text \<open>\<open>\d{1,2}[/-]\d{4}\<close>\<close>

definition numeric_month_year :: regex where
  "numeric_month_year = seqs [Rep 1 (Some 2) (Cls [Dig]), Cls [Ch CHR ''/'', Ch CHR ''-''], digits 4]"

definition present_words :: regex where
  "present_words = lits [''Present'', ''Current'', ''Now'']"

text \<open>
  \<open>date_patterns\<close>: \<open>\b(?:Jan|...|Dec)[a-z]*\s+\d{4}\b\<close>, \<open>\b\d{1,2}[/-]\d{4}\b\<close>,
  \<open>\b(?:19|20)\d{2}\b\<close> and \<open>(?:Present|Current|Now)\<close>.
\<close>

definition date_patterns :: "regex list" where
  "date_patterns =
     [Seq month_year Bnd,
      seqs [Bnd, numeric_month_year, Bnd],
      seqs [Bnd, Alt (Lit ''19'') (Lit ''20''), digits 2, Bnd],
      present_words]"

text \<open>The seven \<open>title_patterns\<close>, in the order of the source.\<close>

definition cap_words :: regex where
  "cap_words = Seq cap_word (rstar (Seq spaces1 cap_word))"

definition title_patterns :: "regex list" where
  "title_patterns =
     [seqs [Bnd,
            lits [''Senior'', ''Junior'', ''Lead'', ''Principal'', ''Staff'', ''Associate'',
                  ''Manager'', ''Director'', ''VP'', ''CEO'', ''CTO'', ''CFO'', ''Executive'',
                  ''Head'', ''Chief''],
            spaces1, rplus (Cls [AZ, az, Spc])],
      seqs [Bnd, cap_word, spaces1,
            lits [''Engineer'', ''Developer'', ''Manager'', ''Analyst'', ''Specialist'',
                  ''Architect'', ''Consultant'', ''Coordinator'', ''Supervisor'',
                  ''Representative'', ''Assistant'', ''Clerk'']],
      seqs [Bnd,
            alts [Lit ''Software'', Lit ''Data'', Lit ''Product'', Lit ''DevOps'', Lit ''Backend'',
                  Lit ''Frontend'', seqs [Lit ''Full'', ropt Dot, Lit ''Stack''], Lit ''Mobile'',
                  Lit ''QA'', Lit ''Test'', Lit ''Systems'', Lit ''Security'', Lit ''Sales'',
                  Lit ''Customer'', Lit ''Marketing'', Lit ''Operations''],
            spaces1,
            lits [''Engineer'', ''Developer'', ''Architect'', ''Manager'', ''Analyst'',
                  ''Specialist'', ''Representative'']],
      seqs [Bnd,
            ropt (lits [''Warehouse'', ''Logistics'', ''Supply Chain'', ''Operations'',
                        ''Distribution'', ''Retail'', ''Amazon'', ''Fulfillment'', ''Delivery'',
                        ''Shipping'']),
            spaces,
            lits [''Associate'', ''Specialist'', ''Coordinator'', ''Supervisor'', ''Manager'',
                  ''Worker'', ''Operator'', ''Technician'', ''Clerk'']],
      seqs [Bnd, cap_word, spaces1, Alt (Lit ''at'') (Lit ''@''), spaces1, Cls [AZ]],
      seqs [Bol, spaces, cap_words, spaces, Lit ''-'', spaces, Cls [AZ]],
      seqs [Bol, spaces, cap_words, spaces, Lit '','', spaces, Cls [AZ]]]"

text \<open>
  \<open>date_title_pattern\<close>:
  \<open>\b(?:Jan|...|Dec)[a-z]*\s+\d{4}\b.*\b(?:Engineer|...|Supervisor)\b\<close>
\<close>

definition date_title_pattern :: regex where
  "date_title_pattern = seqs [month_year, Bnd, rstar Dot, Bnd,
     lits [''Engineer'', ''Developer'', ''Manager'', ''Analyst'', ''Specialist'', ''Associate'',
           ''Coordinator'', ''Supervisor''],
     Bnd]"

text \<open>\<open>^(?:at|@)\s+\<close>\<close>

definition at_prefix :: regex where
  "at_prefix = seqs [Bol, Alt (Lit ''at'') (Lit ''@''), spaces1]"

definition title_length_ok :: "string \<Rightarrow> bool" where
  "title_length_ok t \<longleftrightarrow> length t > 5 \<and> length t < 100"

definition date_title_text :: "string \<Rightarrow> string option" where
  "date_title_text line =
     (case search True date_title_pattern line of
        None \<Rightarrow> None
      | Some m \<Rightarrow>
          (let title_part = strip (drop (m_end m) line)
           in if title_part \<noteq> [] then
                (let title_text = strip (join '' '' (take 5 (split_ws title_part)))
                 in if title_length_ok title_text then Some title_text else None)
              else None))"

fun pattern_title :: "regex list \<Rightarrow> string \<Rightarrow> string option" where
  "pattern_title [] line = None"
| "pattern_title (pattern # patterns) line =
     (case search True pattern line of
        None \<Rightarrow> pattern_title patterns line
      | Some m \<Rightarrow>
          (let title_text = strip (rx_sub True at_prefix [] (strip (m_group0 m)))
           in if title_length_ok title_text then Some title_text
              else pattern_title patterns line))"

text \<open>The title a line opens a new entry with, if it has one.\<close>

definition find_title :: "string \<Rightarrow> string option" where
  "find_title line =
     (case date_title_text line of
        Some t \<Rightarrow> Some t
      | None \<Rightarrow> pattern_title title_patterns line)"

definition new_experience :: "string \<Rightarrow> experience_entry" where
  "new_experience title_text =
     \<lparr>title = Some title_text, company = None, start_date = None, end_date = None,
      description = [], achievements = [], technologies = []\<rparr>"

definition well_known_companies :: "string list" where
  "well_known_companies = [''Amazon'', ''Google'', ''Microsoft'', ''Apple'', ''Facebook'', ''Meta'',
     ''IBM'', ''Oracle'', ''Salesforce'', ''Adobe'', ''Intel'', ''NVIDIA'',
     ''Tesla'', ''Netflix'', ''Uber'', ''Airbnb'', ''Twitter'', ''LinkedIn'',
     ''Walmart'', ''Target'', ''Costco'', ''FedEx'', ''UPS'', ''DHL'']"

text \<open>The class \<open>[A-Za-z0-9\s&.,-]\<close>.\<close>

definition company_chars :: regex where
  "company_chars = Cls [AZ, az, d09, Spc, Ch CHR ''&'', Ch CHR ''.'', Ch CHR '','', Ch CHR ''-'']"

text \<open>
  \<open>^[A-Z][A-Za-z0-9\s&.,-]+(?:Inc|LLC|Ltd|Corp|Corporation|Company|Co|Technologies|Solutions|Systems|Group|Enterprises)?$\<close>
\<close>

definition company_pattern :: regex where
  "company_pattern = seqs [Bol, Cls [AZ], rplus company_chars,
     ropt (lits [''Inc'', ''LLC'', ''Ltd'', ''Corp'', ''Corporation'', ''Company'', ''Co'',
                 ''Technologies'', ''Solutions'', ''Systems'', ''Group'', ''Enterprises'']),
     Eol]"

text \<open>
  \<open>(?:at|@|-|,)\s+([A-Z][A-Za-z0-9\s&.,-]+(?:Inc|LLC|Ltd|Corp|Corporation|Company|Co)?)\<close>
\<close>

definition company_at_pattern :: regex where
  "company_at_pattern = seqs [lits [''at'', ''@'', ''-'', '',''], spaces1,
     Grp 1 (seqs [Cls [AZ], rplus company_chars,
                  ropt (lits [''Inc'', ''LLC'', ''Ltd'', ''Corp'', ''Corporation'', ''Company'',
                              ''Co''])])]"

definition company_stop_words :: "string list" where
  "company_stop_words = [''engineer'', ''developer'', ''manager'', ''associate'']"

text \<open>The four attempts at a company name, each made only while the entry has none.\<close>

definition company_from_orgs :: "string list \<Rightarrow> string \<Rightarrow> experience_entry \<Rightarrow> experience_entry" where
  "company_from_orgs orgs line e =
     (case find (\<lambda>org. org \<noteq> [] \<and> contains (lower line) (lower org)) orgs of
        None \<Rightarrow> e
      | Some org \<Rightarrow> e\<lparr>company := Some org\<rparr>)"

definition company_well_known :: "string \<Rightarrow> experience_entry \<Rightarrow> experience_entry" where
  "company_well_known line e =
     (case find (\<lambda>c. contains (lower line) (lower c) \<and> search True (word_pattern c) line \<noteq> None)
             well_known_companies of
        None \<Rightarrow> e
      | Some c \<Rightarrow> e\<lparr>company := Some c\<rparr>)"

definition company_whole_line :: "string \<Rightarrow> experience_entry \<Rightarrow> experience_entry" where
  "company_whole_line line e =
     (if rx_match False company_pattern line \<noteq> None \<and> length line > 3 \<and> length line < 100
         \<and> search False (digits 4) line = None
         \<and> \<not> list_ex (\<lambda>w. contains (lower line) w) company_stop_words
      then e\<lparr>company := Some line\<rparr> else e)"

definition company_after_separator :: "string \<Rightarrow> experience_entry \<Rightarrow> error + experience_entry" where
  "company_after_separator line e =
     (case search True company_at_pattern line of
        None \<Rightarrow> Inr e
      | Some m \<Rightarrow>
          ebind (group_strip m 1) (\<lambda>company_text.
            Inr (if length company_text > 3 \<and> length company_text < 100
                 then e\<lparr>company := Some company_text\<rparr> else e)))"

definition set_company :: "string list \<Rightarrow> string \<Rightarrow> experience_entry \<Rightarrow> error + experience_entry" where
  "set_company orgs line e =
     (if truthy (company e) then Inr e
      else
        (let e1 = company_from_orgs orgs line e
         in if truthy (company e1) then Inr e1
            else
              (let e2 = company_well_known line e1;
                   e3 = (if truthy (company e2) then e2 else company_whole_line line e2)
               in if truthy (company e3) then Inr e3 else company_after_separator line e3)))"

fun set_dates :: "regex list \<Rightarrow> string \<Rightarrow> experience_entry \<Rightarrow> experience_entry" where
  "set_dates [] line e = e"
| "set_dates (pattern # patterns) line e =
     (case findall True pattern line of
        [] \<Rightarrow> set_dates patterns line e
      | d0 # ds \<Rightarrow>
          (let e1 = (if \<not> truthy (start_date e) then e\<lparr>start_date := Some d0\<rparr> else e)
           in case ds of
                d1 # _ \<Rightarrow> e1\<lparr>end_date := Some d1\<rparr>
              | [] \<Rightarrow>
                  (if contains (lower line) ''present'' \<or> contains (lower line) ''current''
                      \<or> contains (lower line) ''now''
                   then e1\<lparr>end_date := Some ''Present''\<rparr> else e1)))"

text \<open>
  \<open>date_range_pattern\<close>: a month-and-year or \<open>MM/YYYY\<close>, a dash, and a month-and-year,
  \<open>MM/YYYY\<close> or one of Present, Current, Now. The source's dash class also holds the en dash
  and the em dash, which lie outside the code points of the model.
\<close>

definition date_range_pattern :: regex where
  "date_range_pattern = seqs
     [Grp 1 (Alt month_year numeric_month_year),
      spaces, Cls [Ch CHR ''-''], spaces,
      Grp 2 (alts [month_year, numeric_month_year, Lit ''Present'', Lit ''Current'', Lit ''Now''])]"

definition set_date_range :: "string \<Rightarrow> experience_entry \<Rightarrow> experience_entry" where
  "set_date_range line e =
     (case search True date_range_pattern line of
        None \<Rightarrow> e
      | Some m \<Rightarrow>
          (let e1 = (if \<not> truthy (start_date e) then
                       (case m_group m 1 of
                          None \<Rightarrow> e
                        | Some g \<Rightarrow> (if g \<noteq> [] then e\<lparr>start_date := Some (strip g)\<rparr> else e))
                     else e)
           in case m_group m 2 of
                None \<Rightarrow> e1
              | Some g \<Rightarrow>
                  (if g = [] then e1
                   else
                     (let end = strip g
                      in if end \<noteq> [] \<and> lower end \<in> set [''present'', ''current'', ''now'']
                         then e1\<lparr>end_date := Some ''Present''\<rparr>
                         else if end \<noteq> [] then e1\<lparr>end_date := Some end\<rparr> else e1))))"

text \<open>\<open>^[\d\s\/\-]+$\<close> (with the two dashes left out as above) and
  \<open>^[A-Z][A-Za-z\s&.,-]+(?:Inc|LLC|Ltd|Corp)?$\<close>\<close>

definition only_dates_pattern :: regex where
  "only_dates_pattern = seqs [Bol, rplus (Cls [Dig, Spc, Ch CHR ''/'', Ch CHR ''-'']), Eol]"

definition bare_name_pattern :: regex where
  "bare_name_pattern = seqs [Bol, Cls [AZ],
     rplus (Cls [AZ, az, Spc, Ch CHR ''&'', Ch CHR ''.'', Ch CHR '','', Ch CHR ''-'']),
     ropt (lits [''Inc'', ''LLC'', ''Ltd'', ''Corp'']), Eol]"

definition add_description :: "string \<Rightarrow> experience_entry \<Rightarrow> experience_entry" where
  "add_description line e =
     (if rx_match False only_dates_pattern line = None then
        (if description e \<noteq> [] then
           (if \<not> contains (description e) line
            then e\<lparr>description := description e @ [nl] @ line\<rparr> else e)
         else
           (if rx_match False bare_name_pattern line = None \<or> length line > 20
            then e\<lparr>description := line\<rparr> else e))
      else e)"

text \<open>What a line without a title adds to the open entry.\<close>

definition update_entry :: "string list \<Rightarrow> string \<Rightarrow> experience_entry \<Rightarrow> error + experience_entry" where
  "update_entry orgs line e =
     ebind (set_company orgs line e) (\<lambda>e1.
       Inr (add_description line (set_date_range line (set_dates date_patterns line e1))))"

text \<open>
  The state of the line loop: the entry being filled (\<open>None\<close> for the empty dictionary) and
  the entries committed so far.
\<close>

type_synonym exp_state = "experience_entry option \<times> experience_entry list"

definition commit_experience :: "exp_state \<Rightarrow> experience_entry list" where
  "commit_experience st =
     (case fst st of
        Some e \<Rightarrow> (if truthy (title e) then snd st @ [e] else snd st)
      | None \<Rightarrow> snd st)"

definition exp_step :: "string list \<Rightarrow> exp_state \<Rightarrow> string \<Rightarrow> error + exp_state" where
  "exp_step orgs st raw_line =
     (if raw_line = [] then Inr st
      else
        (let line = strip raw_line
         in if line = [] \<or> length line < 5 then
              Inr (case fst st of
                     Some e \<Rightarrow> (if truthy (title e) then (None, snd st @ [e]) else st)
                   | None \<Rightarrow> st)
            else
              (let line = (if length line > 500 then take 500 line else line)
               in case find_title line of
                    Some title_text \<Rightarrow> Inr (Some (new_experience title_text), commit_experience st)
                  | None \<Rightarrow>
                      (case fst st of
                         None \<Rightarrow> Inr st
                       | Some e \<Rightarrow> ebind (update_entry orgs line e) (\<lambda>e'. Inr (Some e', snd st))))))"

fun exp_loop :: "string list \<Rightarrow> exp_state \<Rightarrow> string list \<Rightarrow> error + exp_state" where
  "exp_loop orgs st [] = Inr st"
| "exp_loop orgs st (line # lines) = ebind (exp_step orgs st line) (\<lambda>st'. exp_loop orgs st' lines)"

text \<open>A section that was not found, or is empty, is replaced by the whole text.\<close>

definition section_or_text :: "string \<Rightarrow> string list \<Rightarrow> string" where
  "section_or_text cleaned_text keywords =
     (case find_section cleaned_text keywords of
        None \<Rightarrow> cleaned_text
      | Some sec \<Rightarrow> (if sec = [] then cleaned_text else sec))"

definition extract_experience_enhanced ::
  "parser_env \<Rightarrow> string \<Rightarrow> error + experience_entry list" where
  "extract_experience_enhanced env cleaned_text =
     (let exp_section = section_or_text cleaned_text exp_keywords;
          orgs = map ent_text (filter (\<lambda>e. ent_label e = ''ORG'')
                                 (spacy_ents env (take 3000 exp_section)))
      in ebind (exp_loop orgs (None, []) (split_on nl exp_section))
           (\<lambda>st. Inr (commit_experience st)))"


subsection \<open>Education\<close>

definition edu_keywords :: "string list" where
  "edu_keywords = [''education'', ''academic'', ''qualification'', ''degree'', ''university'',
     ''college'']"

text \<open>
  \<open>degree_patterns\<close>:
  \<open>\b(?:Bachelor|Master|PhD|Doctorate|Associate|Diploma|Certificate)\s+(?:of|in)?\s+[A-Za-z\s&]+\<close>
  and \<open>\b(?:B\.?S\.?|M\.?S\.?|B\.?A\.?|M\.?A\.?|Ph\.?D\.?|MBA|B\.?E\.?|M\.?E\.?)\b\<close>
\<close>

definition dotted :: "string \<Rightarrow> string \<Rightarrow> regex" where
  "dotted x y = seqs [Lit x, ropt (Lit ''.''), Lit y, ropt (Lit ''.'')]"

definition degree_patterns :: "regex list" where
  "degree_patterns =
     [seqs [Bnd,
            lits [''Bachelor'', ''Master'', ''PhD'', ''Doctorate'', ''Associate'', ''Diploma'',
                  ''Certificate''],
            spaces1, ropt (Alt (Lit ''of'') (Lit ''in'')), spaces1,
            rplus (Cls [AZ, az, Spc, Ch CHR ''&''])],
      seqs [Bnd,
            alts [dotted ''B'' ''S'', dotted ''M'' ''S'', dotted ''B'' ''A'', dotted ''M'' ''A'',
                  dotted ''Ph'' ''D'', Lit ''MBA'', dotted ''B'' ''E'', dotted ''M'' ''E''],
            Bnd]]"

text \<open>\<open>\b([A-Z][A-Za-z\s&]+(?:University|College|Institute|School|Academy))\b\<close>\<close>

definition institution_pattern :: regex where
  "institution_pattern = seqs [Bnd,
     Grp 1 (seqs [Cls [AZ], rplus (Cls [AZ, az, Spc, Ch CHR ''&'']),
                  lits [''University'', ''College'', ''Institute'', ''School'', ''Academy'']]),
     Bnd]"

text \<open>\<open>\bGPA[:\s]*(\d+\.?\d*)\b\<close>\<close>

definition gpa_pattern :: regex where
  "gpa_pattern = seqs [Bnd, Lit ''GPA'', rstar (Cls [Ch CHR '':'', Spc]),
     Grp 1 (seqs [rplus (Cls [Dig]), ropt (Lit ''.''), rstar (Cls [Dig])]), Bnd]"

definition institution_keywords :: "string list" where
  "institution_keywords = [''university'', ''college'', ''institute'', ''school'']"

definition new_education :: "string \<Rightarrow> education_entry" where
  "new_education degree_text =
     \<lparr>degree = Some degree_text, institution = None, year = None, field = None, gpa = None,
      honors = []\<rparr>"

fun find_degree :: "regex list \<Rightarrow> string \<Rightarrow> string option" where
  "find_degree [] line = None"
| "find_degree (pattern # patterns) line =
     (case search True pattern line of
        None \<Rightarrow> find_degree patterns line
      | Some m \<Rightarrow>
          (let degree_text = strip (m_group0 m)
           in Some (if length degree_text > 100 then take 100 degree_text else degree_text)))"

text \<open>
  The words of the line from the first one that holds an institution keyword; the loop
  stops once the words joined by spaces are longer than 100 characters.
\<close>

fun inst_words_from :: "bool \<Rightarrow> string list \<Rightarrow> string list \<Rightarrow> string list" where
  "inst_words_from found_keyword inst_words [] = inst_words"
| "inst_words_from found_keyword inst_words (w # ws) =
     (let found = (found_keyword
                   \<or> (w \<noteq> [] \<and> list_ex (\<lambda>kw. contains (lower w) kw) institution_keywords))
      in if found then
           (let inst_words' = inst_words @ [w]
            in if length (join '' '' inst_words') > 100 then inst_words'
               else inst_words_from found inst_words' ws)
         else inst_words_from found inst_words ws)"

definition set_institution :: "string \<Rightarrow> education_entry \<Rightarrow> error + education_entry" where
  "set_institution line e =
     (if truthy (institution e) then Inr e
      else
        (case search False institution_pattern line of
           Some m \<Rightarrow>
             ebind (group_strip m 1) (\<lambda>inst_text.
               Inr (if length inst_text \<le> 100 then e\<lparr>institution := Some inst_text\<rparr> else e))
         | None \<Rightarrow>
             (if list_ex (\<lambda>w. contains (lower line) w) institution_keywords then
                (let inst_words = inst_words_from False [] (split_ws line)
                 in Inr (if inst_words \<noteq> []
                         then e\<lparr>institution := Some (strip (join '' '' (take 8 inst_words)))\<rparr>
                         else e))
              else Inr e)))"

text \<open>\<open>\b(19|20)\d{2}\b\<close>, used by the education extractor and by \<open>_extract_year\<close>.\<close>

definition year_pattern :: regex where
  "year_pattern = seqs [Bnd, Grp 1 (Alt (Lit ''19'') (Lit ''20'')),
     Rep 2 (Some 2) (Cls [Dig]), Bnd]"

definition set_year :: "string \<Rightarrow> education_entry \<Rightarrow> education_entry" where
  "set_year line e =
     (case search False year_pattern line of
        Some m \<Rightarrow> (if \<not> truthy (year e) then e\<lparr>year := Some (m_group0 m)\<rparr> else e)
      | None \<Rightarrow> e)"

definition set_gpa :: "string \<Rightarrow> education_entry \<Rightarrow> education_entry" where
  "set_gpa line e =
     (case search True gpa_pattern line of
        Some m \<Rightarrow> e\<lparr>gpa := m_group m 1\<rparr>
      | None \<Rightarrow> e)"

type_synonym edu_state = "education_entry option \<times> education_entry list"

definition commit_education :: "edu_state \<Rightarrow> education_entry list" where
  "commit_education st =
     (case fst st of
        Some e \<Rightarrow> (if truthy (degree e) then snd st @ [e] else snd st)
      | None \<Rightarrow> snd st)"

definition edu_step :: "edu_state \<Rightarrow> string \<Rightarrow> error + edu_state" where
  "edu_step st raw_line =
     (if raw_line = [] then Inr st
      else
        (let line = strip raw_line
         in if line = [] \<or> length line < 5 then
              Inr (case fst st of
                     Some e \<Rightarrow> (if truthy (degree e) then (None, snd st @ [e]) else st)
                   | None \<Rightarrow> st)
            else
              (let line = (if length line > 300 then take 300 line else line);
                   st1 = (case find_degree degree_patterns line of
                            Some degree_text \<Rightarrow>
                              (Some (new_education degree_text), commit_education st)
                          | None \<Rightarrow> st)
               in case fst st1 of
                    None \<Rightarrow> Inr st1
                  | Some e \<Rightarrow>
                      ebind (set_institution line e) (\<lambda>e1.
                        Inr (Some (set_gpa line (set_year line e1)), snd st1)))))"

fun edu_loop :: "edu_state \<Rightarrow> string list \<Rightarrow> error + edu_state" where
  "edu_loop st [] = Inr st"
| "edu_loop st (line # lines) = ebind (edu_step st line) (\<lambda>st'. edu_loop st' lines)"

definition extract_education_enhanced :: "string \<Rightarrow> error + education_entry list" where
  "extract_education_enhanced cleaned_text =
     ebind (edu_loop (None, []) (split_on nl (section_or_text cleaned_text edu_keywords)))
       (\<lambda>st. Inr (commit_education st))"

subsection \<open>Skills\<close>

definition skills_keywords :: "string list" where
  "skills_keywords = [''skills'', ''technical skills'', ''competencies'', ''technologies'',
     ''tools'', ''expertise'']"

definition common_skills :: "string list" where
  "common_skills =
     [''Python'', ''Java'', ''JavaScript'', ''TypeScript'', ''C++'', ''C#'', ''Go'', ''Rust'',
      ''Ruby'', ''PHP'', ''Swift'', ''Kotlin'', ''Scala'', ''R'', ''MATLAB'', ''SQL'', ''HTML'',
      ''CSS'', ''React'', ''Angular'', ''Vue'', ''Node.js'', ''Express'', ''Django'', ''Flask'',
      ''FastAPI'', ''Spring'', ''Laravel'', ''ASP.NET'', ''Next.js'', ''Nuxt.js'',
      ''PostgreSQL'', ''MySQL'', ''MongoDB'', ''Redis'', ''Oracle'', ''SQLite'', ''Cassandra'',
      ''AWS'', ''Azure'', ''GCP'', ''Docker'', ''Kubernetes'', ''Git'', ''Linux'',
      ''Terraform'', ''Ansible'', ''Jenkins'', ''CI/CD'', ''GitHub Actions'',
      ''Machine Learning'', ''TensorFlow'', ''PyTorch'', ''Keras'', ''Scikit-learn'',
      ''Pandas'', ''NumPy'', ''OpenCV'', ''Agile'', ''Scrum'', ''DevOps'',
      ''Warehousing'', ''Logistics'', ''Supply Chain'', ''Operations'', ''Distribution'']"

text \<open>\<open>skills.append(x)\<close> guarded by \<open>x not in skills\<close>.\<close>

definition add_skill :: "string list \<Rightarrow> string \<Rightarrow> string list" where
  "add_skill skills_so_far x = (if x \<in> set skills_so_far then skills_so_far else skills_so_far @ [x])"

text \<open>The vocabulary scan: every known skill that occurs in the section as a whole word.\<close>

definition vocabulary_skills :: "string \<Rightarrow> string list" where
  "vocabulary_skills skills_section =
     foldl (\<lambda>acc skill. if search True (word_pattern skill) skills_section \<noteq> None
                         then add_skill acc skill else acc)
       [] common_skills"

text \<open>
  One token of a separated line: the known skill it equals ignoring case, in the casing of
  the vocabulary, or else the token itself if it starts with an upper-case letter.
\<close>

definition add_token :: "string list \<Rightarrow> string \<Rightarrow> string list" where
  "add_token acc skill_text =
     (if skill_text \<noteq> [] \<and> 3 \<le> length skill_text \<and> length skill_text \<le> 50 then
        (case find (\<lambda>known. known \<noteq> [] \<and> lower known = lower skill_text) common_skills of
           Some known \<Rightarrow> add_skill acc known
         | None \<Rightarrow> (if is_upper (hd skill_text) then add_skill acc skill_text else acc))
      else acc)"

definition separators :: "char list" where
  "separators = [CHR '','', CHR ''|'', CHR '';'']"

text \<open>A line is split at the first of the separators \<open>,\<close> \<open>|\<close> \<open>;\<close> that it contains.\<close>

definition add_line_skills :: "string list \<Rightarrow> string \<Rightarrow> string list" where
  "add_line_skills acc line =
     (case find (\<lambda>sep. sep \<in> set line) separators of
        None \<Rightarrow> acc
      | Some sep \<Rightarrow>
          foldl add_token acc
            (filter (\<lambda>t. t \<noteq> []) (map strip (split_on sep line))))"

text \<open>The list \<open>skills\<close> as the function has built it before \<open>list(set(skills))\<close>.\<close>

definition collected_skills :: "string \<Rightarrow> string list" where
  "collected_skills cleaned_text =
     (let skills_section = section_or_text cleaned_text skills_keywords
      in foldl add_line_skills (vocabulary_skills skills_section) (split_on nl skills_section))"

definition extract_skills_enhanced :: "parser_env \<Rightarrow> string \<Rightarrow> string list" where
  "extract_skills_enhanced env cleaned_text = list_of_set env (collected_skills cleaned_text)"

subsection \<open>Summary, certifications and languages\<close>

definition summary_keywords :: "string list" where
  "summary_keywords = [''summary'', ''objective'', ''profile'', ''about'', ''overview'']"

definition section_summary :: "string \<Rightarrow> string option" where
  "section_summary cleaned_text =
     (case find_section cleaned_text summary_keywords of
        None \<Rightarrow> None
      | Some summary_section \<Rightarrow>
          (if summary_section = [] then None
           else
             (let sentences = rx_split False
                    (rplus (Cls [Ch CHR ''.'', Ch CHR ''!'', Ch CHR ''?''])) summary_section;
                  s = strip (join ''. '' (take 3 sentences))
              in if s \<noteq> [] then Some (take 500 s) else None)))"

definition extract_summary_enhanced :: "string \<Rightarrow> string option" where
  "extract_summary_enhanced cleaned_text =
     (case section_summary cleaned_text of
        Some s \<Rightarrow> Some s
      | None \<Rightarrow>
          map_option (take 500)
            (find (\<lambda>line. length line > 50) (take 10 (split_on nl cleaned_text))))"

definition cert_keywords :: "string list" where
  "cert_keywords = [''certification'', ''certificate'', ''certified'', ''license'']"

text \<open>\<open>(?:Certified|Certification|License)\s+[A-Za-z\s]+\<close>\<close>

definition cert_pattern :: regex where
  "cert_pattern = seqs [lits [''Certified'', ''Certification'', ''License''], spaces1,
     rplus (Cls [AZ, az, Spc])]"

definition extract_certifications :: "string \<Rightarrow> string list" where
  "extract_certifications text =
     (case find_section text cert_keywords of
        None \<Rightarrow> []
      | Some cert_section \<Rightarrow>
          (if cert_section = [] then [] else findall True cert_pattern cert_section))"

definition lang_keywords :: "string list" where
  "lang_keywords = [''languages'', ''language'']"

definition common_langs :: "string list" where
  "common_langs = [''English'', ''Spanish'', ''French'', ''German'', ''Chinese'', ''Japanese'',
     ''Hindi'', ''Arabic'', ''Portuguese'', ''Russian'', ''Italian'']"

definition extract_languages :: "string \<Rightarrow> string list" where
  "extract_languages text =
     (case find_section text lang_keywords of
        None \<Rightarrow> []
      | Some lang_section \<Rightarrow>
          (if lang_section = [] then []
           else filter (\<lambda>lang. search True (word_pattern lang) lang_section \<noteq> None) common_langs))"

section \<open>The structuring engine\<close>

text \<open>
  The argument of \<open>parse\<close>: a string, or a value of another type. Of a value that is not a
  string the parser uses one thing only, its truth value in \<open>not text\<close>; taking it returns a
  boolean or raises, as \<open>__bool__\<close> of a NumPy array of several elements does.
\<close>

datatype py_value = Str string | NotStr "error + bool"

text \<open>
  \<open>if not text or not isinstance(text, str): text = ""\<close>. The truth value is taken first;
  whatever it is, a value that is not a string is replaced by the empty string.
\<close>

fun validated :: "py_value \<Rightarrow> error + string" where
  "validated (Str s) = Inr s"
| "validated (NotStr (Inl err)) = Inl err"
| "validated (NotStr (Inr b)) = Inr []"

record parse_result = parsed_data +
  confidence_score :: int

text \<open>\<open>EnhancedParser.parse\<close>\<close>

definition parse :: "parser_env \<Rightarrow> py_value \<Rightarrow> error + parse_result" where
  "parse env input =
     ebind (validated input) (\<lambda>text.
       (let cleaned_text = preprocess_text text
        in ebind (extract_personal_info_enhanced env cleaned_text text) (\<lambda>info.
           ebind (extract_experience_enhanced env cleaned_text) (\<lambda>exps.
           ebind (extract_education_enhanced cleaned_text) (\<lambda>edus.
             (let d = \<lparr>personal = info, experience = exps, education = edus,
                       skills = extract_skills_enhanced env cleaned_text,
                       summary = extract_summary_enhanced cleaned_text,
                       certifications = extract_certifications cleaned_text,
                       languages = extract_languages cleaned_text\<rparr>
              in Inr (parsed_data.extend d
                        \<lparr>confidence_score = calculate_confidence_enhanced d\<rparr>)))))))"

section \<open>The relevancy scoring engine\<close>

text \<open>
  \<open>MatchingService\<close> (app/services/matching_service.py). Floating-point scores are modelled
  as exact rationals, and \<open>round(x, n)\<close> as rounding to \<open>n\<close> decimals with ties to the even
  neighbour. The entries of a stored profile carry every key the parsers write, each
  holding a string or \<open>None\<close>; calling \<open>.lower()\<close> on \<open>None\<close> raises \<open>AttributeError\<close>.
\<close>

text \<open>Python's \<open>/\<close>, which raises on a zero divisor.\<close>

definition py_div :: "rat \<Rightarrow> rat \<Rightarrow> error + rat" where
  "py_div x y = (if y = 0 then Inl ZeroDivisionError else Inr (x / y))"

definition round_half_even :: "rat \<Rightarrow> int" where
  "round_half_even y =
     (let f = \<lfloor>y\<rfloor>; d = y - of_int f
      in if d < 1 / 2 then f else if 1 / 2 < d then f + 1 else if even f then f else f + 1)"

definition py_round :: "nat \<Rightarrow> rat \<Rightarrow> rat" where
  "py_round n x = of_int (round_half_even (x * 10 ^ n)) / 10 ^ n"

record skill_result =
  sk_score :: rat
  matched_skills :: "string list"
  required_skills :: "string list"
  missing_skills :: "string list"

record experience_result =
  ex_score :: rat
  total_years :: "rat option"
  required_years :: "nat option"
  matched_positions :: nat
  total_positions :: nat

record education_result =
  ed_score :: rat
  required_degree :: "string option"
  matched_degrees :: nat
  has_required :: "bool option"

record title_result =
  ti_score :: rat
  matched_titles :: "string list"
  relevant_keywords :: "string list option"

text \<open>The reference vocabulary of \<open>_match_skills\<close>.\<close>

definition common_skills_match :: "string list" where
  "common_skills_match =
     [''python'', ''java'', ''javascript'', ''typescript'', ''react'', ''angular'', ''vue'',
      ''node.js'', ''sql'', ''postgresql'', ''mongodb'', ''aws'', ''azure'', ''gcp'',
      ''docker'', ''kubernetes'', ''git'', ''agile'', ''scrum'', ''ci/cd'',
      ''machine learning'', ''ai'', ''data science'', ''tensorflow'', ''pytorch'']"

definition match_skills :: "string list \<Rightarrow> string \<Rightarrow> error + skill_result" where
  "match_skills resume_skills job_desc =
     (let required = filter (\<lambda>skill. contains job_desc skill) common_skills_match;
          matched = filter (\<lambda>skill. list_ex (\<lambda>req. contains skill req \<or> contains req skill) required)
                      resume_skills
      in case (if required \<noteq> []
               then py_div (of_nat (length matched)) (of_nat (max (length required) 1))
               else Inr 0) of
           Inl err \<Rightarrow> Inl err
         | Inr score \<Rightarrow>
             Inr \<lparr>sk_score = py_round 2 (min score 1),
                  matched_skills = matched,
                  required_skills = required,
                  missing_skills =
                    filter (\<lambda>s. \<not> list_ex (\<lambda>rs. contains rs s \<or> contains s rs) matched)
                      required\<rparr>)"

text \<open>\<open>(\d+)\+?\s*years?\s*(?:of\s*)?experience\<close>\<close>

definition years_pattern :: regex where
  "years_pattern = seqs [Grp 1 (rplus (Cls [Dig])), ropt (Lit ''+''), rstar (Cls [Spc]),
     Lit ''year'', ropt (Lit ''s''), rstar (Cls [Spc]),
     ropt (Seq (Lit ''of'') (rstar (Cls [Spc]))), Lit ''experience'']"

definition extract_year :: "string option \<Rightarrow> int option" where
  "extract_year date_str =
     (case date_str of
        None \<Rightarrow> None
      | Some s \<Rightarrow>
          (if s = [] then None
           else map_option (\<lambda>m. int (int_of_digits (m_group0 m))) (search False year_pattern s)))"

text \<open>
  \<open>_calculate_years_from_exp\<close>; \<open>now\<close> is the year of \<open>datetime.now()\<close>. The test
  \<open>start_year and end_year\<close> is false for \<open>None\<close> and for the number 0.
\<close>

definition calculate_years_from_exp :: "int \<Rightarrow> experience_entry \<Rightarrow> rat" where
  "calculate_years_from_exp now e =
     (let start_year = extract_year (start_date e);
          end_year = (if end_date e \<noteq> Some ''Present'' then extract_year (end_date e)
                      else Some now)
      in case (start_year, end_year) of
           (Some s, Some y) \<Rightarrow> (if s \<noteq> 0 \<and> y \<noteq> 0 then of_int (max 0 (y - s)) else 1)
         | _ \<Rightarrow> 1)"

definition relevant_keywords_exp :: "string list" where
  "relevant_keywords_exp = [''engineer'', ''developer'', ''manager'', ''analyst'', ''designer'']"

text \<open>
  The list comprehension that selects the relevant positions lowers every title in turn and
  raises at the first one that is \<open>None\<close>.
\<close>

fun relevant_experience :: "experience_entry list \<Rightarrow> error + experience_entry list" where
  "relevant_experience [] = Inr []"
| "relevant_experience (e # es) =
     (case title e of
        None \<Rightarrow> Inl AttributeError
      | Some t \<Rightarrow>
          (case relevant_experience es of
             Inl err \<Rightarrow> Inl err
           | Inr rs \<Rightarrow>
               Inr (if list_ex (\<lambda>kw. contains (lower t) kw) relevant_keywords_exp
                    then e # rs else rs)))"

definition match_experience ::
  "int \<Rightarrow> experience_entry list \<Rightarrow> string \<Rightarrow> error + experience_result" where
  "match_experience now exps job_desc =
     (if exps = [] then
        Inr \<lparr>ex_score = 0, total_years = None, required_years = None,
             matched_positions = 0, total_positions = 0\<rparr>
      else
        (let required = (case search False years_pattern job_desc of
                           None \<Rightarrow> 0
                         | Some m \<Rightarrow> (case m_group m 1 of None \<Rightarrow> 0
                                       | Some ds \<Rightarrow> int_of_digits ds));
             total = sum_list (map (calculate_years_from_exp now) exps)
         in case (if required = 0 then Inr (8 / 10) else py_div total (of_nat required)) of
              Inl err \<Rightarrow> Inl err
            | Inr ratio \<Rightarrow>
                (let score = (if required = 0 then ratio else min ratio 1)
                 in case relevant_experience exps of
                      Inl err \<Rightarrow> Inl err
                    | Inr rel \<Rightarrow>
                        (case py_div (of_nat (length rel)) (of_nat (max (length exps) 1)) of
                           Inl err \<Rightarrow> Inl err
                         | Inr relevance \<Rightarrow>
                             Inr \<lparr>ex_score = py_round 2 (score * (6 / 10) + relevance * (4 / 10)),
                                  total_years = Some (py_round 1 total),
                                  required_years = Some required,
                                  matched_positions = length rel,
                                  total_positions = length exps\<rparr>))))"

definition degree_keywords :: "string list" where
  "degree_keywords = [''bachelor'', ''master'', ''phd'', ''doctorate'', ''degree'']"

text \<open>The first degree keyword, in the order of the list, that the job text contains.\<close>

definition find_required_degree :: "string \<Rightarrow> string option" where
  "find_required_degree job_desc = find (\<lambda>keyword. contains job_desc keyword) degree_keywords"

text \<open>
  \<open>any(required_degree in edu.get("degree", "").lower() for edu in education)\<close>: the
  generator stops at the first entry that matches and raises at an entry whose degree is
  \<open>None\<close>, if it reaches one.
\<close>

fun any_degree :: "string \<Rightarrow> education_entry list \<Rightarrow> error + bool" where
  "any_degree req [] = Inr False"
| "any_degree req (e # es) =
     (case degree e of
        None \<Rightarrow> Inl AttributeError
      | Some d \<Rightarrow> (if contains (lower d) req then Inr True else any_degree req es))"

definition match_education :: "education_entry list \<Rightarrow> string \<Rightarrow> error + education_result" where
  "match_education edus job_desc =
     (if edus = [] then
        Inr \<lparr>ed_score = 0, required_degree = None, matched_degrees = 0, has_required = None\<rparr>
      else
        (case find_required_degree job_desc of
           None \<Rightarrow>
             Inr \<lparr>ed_score = 8 / 10, required_degree = None,
                  matched_degrees = length edus, has_required = None\<rparr>
         | Some req \<Rightarrow>
             (case any_degree req edus of
                Inl err \<Rightarrow> Inl err
              | Inr matched \<Rightarrow>
                  Inr \<lparr>ed_score = (if matched then 1 else 3 / 10),
                       required_degree = Some req,
                       matched_degrees = length edus,
                       has_required = Some matched\<rparr>)))"

definition title_keywords :: "string list" where
  "title_keywords = [''engineer'', ''developer'', ''manager'', ''analyst'', ''designer'',
     ''architect'']"

definition match_titles :: "string list \<Rightarrow> string \<Rightarrow> error + title_result" where
  "match_titles job_titles job_desc =
     (if job_titles = [] then
        Inr \<lparr>ti_score = 0, matched_titles = [], relevant_keywords = None\<rparr>
      else
        (let desc_title_keywords = filter (\<lambda>kw. contains job_desc kw) title_keywords;
             matched = filter (\<lambda>t. list_ex (\<lambda>kw. contains t kw) desc_title_keywords) job_titles
         in case py_div (of_nat (length matched)) (of_nat (max (length job_titles) 1)) of
              Inl err \<Rightarrow> Inl err
            | Inr score \<Rightarrow>
                Inr \<lparr>ti_score = py_round 2 score, matched_titles = matched,
                     relevant_keywords = Some desc_title_keywords\<rparr>))"

record detailed_scores =
  d_skill_match :: "skill_result option"
  d_experience_match :: "experience_result option"
  d_education_match :: "education_result option"
  d_title_match :: "title_result option"

record scores =
  overall_score :: rat
  skill_match :: rat
  experience_match :: rat
  education_match :: rat
  title_match :: rat
  detailed :: detailed_scores
  semantic_score :: "rat option"
  match_summary :: "string option"

text \<open>
  What the scoring engine takes from its surroundings: the semantic backend, if one was loaded
  (\<open>_semantic_match\<close> with its embedding model, which returns a similarity and never raises),
  and the current year.
\<close>

record match_env =
  embedding_model :: "(parsed_data \<Rightarrow> string \<Rightarrow> rat) option"
  current_year :: int

definition generate_match_summary :: "rat \<Rightarrow> string" where
  "generate_match_summary overall =
     (if overall \<ge> 8 / 10 then ''Excellent match - Strong candidate for this position''
      else if overall \<ge> 6 / 10 then ''Good match - Candidate meets most requirements''
      else if overall \<ge> 4 / 10 then ''Moderate match - Some gaps in requirements''
      else ''Weak match - Significant gaps in requirements'')"

definition initial_scores :: scores where
  "initial_scores =
     \<lparr>overall_score = 0, skill_match = 0, experience_match = 0, education_match = 0,
      title_match = 0,
      detailed = \<lparr>d_skill_match = None, d_experience_match = None,
                   d_education_match = None, d_title_match = None\<rparr>,
      semantic_score = None, match_summary = None\<rparr>"

definition weighted_sum :: "scores \<Rightarrow> rat" where
  "weighted_sum s = skill_match s * (40 / 100) + experience_match s * (30 / 100)
     + education_match s * (15 / 100) + title_match s * (15 / 100)"

text \<open>
  \<open>calculate_relevancy_score\<close>: one \<open>try\<close> block around the four components, the weighted
  sum, the semantic blend and the summary; the \<open>except\<close> clause logs and the function
  returns the dictionary as far as it was filled in.
\<close>

definition calculate_relevancy_score :: "match_env \<Rightarrow> parsed_data \<Rightarrow> string \<Rightarrow> scores" where
  "calculate_relevancy_score env resume_data job_description =
     (let skill_list = map lower (skills resume_data);
          exps = experience resume_data;
          edus = education resume_data;
          job_titles = map (\<lambda>e. lower (the (title e))) (filter (\<lambda>e. truthy (title e)) exps);
          job_desc_lower = lower job_description;
          s0 = initial_scores
      in case match_skills skill_list job_desc_lower of
           Inl err \<Rightarrow> s0
         | Inr skill_matches \<Rightarrow>
      (let s1 = s0\<lparr>skill_match := sk_score skill_matches,
                 detailed := (detailed s0)\<lparr>d_skill_match := Some skill_matches\<rparr>\<rparr>
       in case match_experience (current_year env) exps job_desc_lower of
           Inl err \<Rightarrow> s1
         | Inr exp_matches \<Rightarrow>
      (let s2 = s1\<lparr>experience_match := ex_score exp_matches,
                 detailed := (detailed s1)\<lparr>d_experience_match := Some exp_matches\<rparr>\<rparr>
       in case match_education edus job_desc_lower of
           Inl err \<Rightarrow> s2
         | Inr edu_matches \<Rightarrow>
      (let s3 = s2\<lparr>education_match := ed_score edu_matches,
                 detailed := (detailed s2)\<lparr>d_education_match := Some edu_matches\<rparr>\<rparr>
       in case match_titles job_titles job_desc_lower of
           Inl err \<Rightarrow> s3
         | Inr title_matches \<Rightarrow>
      (let s4 = s3\<lparr>title_match := ti_score title_matches,
                 detailed := (detailed s3)\<lparr>d_title_match := Some title_matches\<rparr>\<rparr>;
           s5 = s4\<lparr>overall_score := weighted_sum s4\<rparr>;
           s6 = (case embedding_model env of
                   None \<Rightarrow> s5
                 | Some semantic_match \<Rightarrow>
                     (let semantic = semantic_match resume_data job_description
                      in s5\<lparr>semantic_score := Some semantic,
                            overall_score := overall_score s5 * (7 / 10) + semantic * (3 / 10)\<rparr>))
       in s6\<lparr>match_summary := Some (generate_match_summary (overall_score s6))\<rparr>)))))"

section \<open>Notions used in the statements\<close>

text \<open>
  A keyword occurs as a whole word where a piece of the text equals it ignoring case and a
  word boundary lies on each side of the piece: a word character (a letter, a digit or the
  underscore) on one side of the position and none on the other. \<open>word_at\<close> takes the text
  before the piece reversed, as the matcher holds it; \<open>occurs_at\<close> takes it as it is read.
\<close>

text \<open>A match of \<open>\bkeyword\b\<close>, ignoring case.\<close>

definition word_at :: "string \<Rightarrow> string \<Rightarrow> string \<Rightarrow> string \<Rightarrow> bool" where
  "word_at keyword l mid post \<longleftrightarrow>
     lower mid = lower keyword \<and> at_boundary l (mid @ post) \<and> at_boundary (rev mid @ l) post"

definition occurs_at :: "string \<Rightarrow> string \<Rightarrow> string \<Rightarrow> string \<Rightarrow> bool" where
  "occurs_at keyword pre mid post \<longleftrightarrow>
     lower mid = lower keyword
     \<and> at_boundary (rev pre) (mid @ post) \<and> at_boundary (rev (pre @ mid)) post"

definition occurs_as_word :: "string \<Rightarrow> string \<Rightarrow> bool" where
  "occurs_as_word keyword text \<longleftrightarrow>
     keyword \<noteq> [] \<and> (\<exists>pre mid post. text = pre @ mid @ post \<and> occurs_at keyword pre mid post)"

text \<open>
  Where the located section begins: behind the leftmost occurrence of the first keyword of
  the list that occurs in the text at all.
\<close>

definition section_start ::
  "string list \<Rightarrow> string \<Rightarrow> string \<Rightarrow> string \<Rightarrow> string \<Rightarrow> string \<Rightarrow> bool" where
  "section_start keywords text keyword pre mid post \<longleftrightarrow>
     (\<exists>ks1 ks2. keywords = ks1 @ keyword # ks2 \<and> (\<forall>k \<in> set ks1. \<not> occurs_as_word k text))
     \<and> keyword \<noteq> [] \<and> text = pre @ mid @ post \<and> occurs_at keyword pre mid post
     \<and> (\<forall>pre2 mid2 post2. text = pre2 @ mid2 @ post2 \<and> occurs_at keyword pre2 mid2 post2
           \<longrightarrow> length pre \<le> length pre2)"

text \<open>
  What the locator returns of the text behind the keyword: the part before the first
  new-section boundary, or the first 2000 characters when there is no boundary.
\<close>

definition section_body :: "string \<Rightarrow> string" where
  "section_body post =
     (case search False end_pattern post of
        Some end_match \<Rightarrow> take (m_start end_match) post
      | None \<Rightarrow> take 2000 post)"

text \<open>
  A new-section boundary begins at position \<open>k\<close> of a text when the boundary pattern
  matches there. A section ends where the first boundary of the text behind the keyword
  begins; when no boundary begins anywhere in that text, it is its first 2000 characters.
\<close>

definition boundary_at :: "string \<Rightarrow> nat \<Rightarrow> bool" where
  "boundary_at post k \<longleftrightarrow>
     k \<le> length post \<and> rx False end_pattern (rev (take k post), drop k post, []) \<noteq> []"

definition section_end :: "string \<Rightarrow> string \<Rightarrow> bool" where
  "section_end post sec \<longleftrightarrow>
     (\<exists>k. boundary_at post k \<and> (\<forall>j < k. \<not> boundary_at post j) \<and> sec = take k post)
     \<or> ((\<forall>k. \<not> boundary_at post k) \<and> sec = take 2000 post)"

text \<open>The text that \<open>parse\<close> works on: a value that is not a string counts as the empty text.\<close>

definition text_of :: "py_value \<Rightarrow> string" where
  "text_of input = (case input of Str s \<Rightarrow> s | NotStr b \<Rightarrow> [])"

text \<open>An input whose truth value cannot be taken.\<close>

definition truth_raises :: "py_value \<Rightarrow> bool" where
  "truth_raises input \<longleftrightarrow> (case input of NotStr (Inl err) \<Rightarrow> True | _ \<Rightarrow> False)"

definition not_space :: "char \<Rightarrow> bool" where
  "not_space c \<longleftrightarrow> \<not> is_space c"

text \<open>
  A piece of the text with no digit right before it and none right behind it, and a phone
  number as the parser may report it: ten decimal digits that begin with neither \<open>19\<close> nor
  \<open>20\<close> and stand in the text in this way.
\<close>

definition standalone :: "string \<Rightarrow> string \<Rightarrow> bool" where
  "standalone text p \<longleftrightarrow>
     (\<exists>pre post. text = pre @ p @ post \<and> \<not> last_isdigit pre \<and> \<not> first_isdigit post)"

definition valid_phone :: "string \<Rightarrow> string \<Rightarrow> bool" where
  "valid_phone text p \<longleftrightarrow>
     length p = 10 \<and> list_all is_decimal p \<and> \<not> is_prefix ''19'' p \<and> \<not> is_prefix ''20'' p
     \<and> standalone text p"

text \<open>
  A skill of the vocabulary, or a string that equals no skill of the vocabulary even when
  case is ignored.
\<close>

definition vocab_or_new :: "string \<Rightarrow> bool" where
  "vocab_or_new x \<longleftrightarrow> x \<in> set common_skills \<or> lower x \<notin> lower ` set common_skills"

section \<open>Static measures of a pattern\<close>

text \<open>
  What can be read off a pattern without running it: how short a match can be, which
  characters it can consume, and which groups every match sets.
\<close>

text \<open>The least number of characters a match of the pattern consumes.\<close>

fun min_len :: "regex \<Rightarrow> nat" where
  "min_len (Cls its) = 1"
| "min_len (Lit ds) = length ds"
| "min_len Dot = 1"
| "min_len Bnd = 0"
| "min_len Bol = 0"
| "min_len Eol = 0"
| "min_len (Seq a b) = min_len a + min_len b"
| "min_len (Alt a b) = min (min_len a) (min_len b)"
| "min_len (Rep m n a) = (case n of None \<Rightarrow> m | Some k \<Rightarrow> min m k) * min_len a"
| "min_len (Grp k a) = min_len a"

text \<open>
  \<open>chars_ok P ic a\<close>: every character a match of \<open>a\<close> consumes satisfies \<open>P\<close>;
  \<open>head_ok\<close> and \<open>last_ok\<close> say the same of the first and of the last character of a match
  that is not empty.
\<close>

fun chars_ok :: "(char \<Rightarrow> bool) \<Rightarrow> bool \<Rightarrow> regex \<Rightarrow> bool" where
  "chars_ok P ic (Cls its) = (\<forall>c. class_match ic its c \<longrightarrow> P c)"
| "chars_ok P ic (Lit ds) = (\<forall>d \<in> set ds. \<forall>c. lit_match ic d c \<longrightarrow> P c)"
| "chars_ok P ic Dot = (\<forall>c. c \<noteq> nl \<longrightarrow> P c)"
| "chars_ok P ic Bnd = True"
| "chars_ok P ic Bol = True"
| "chars_ok P ic Eol = True"
| "chars_ok P ic (Seq a b) = (chars_ok P ic a \<and> chars_ok P ic b)"
| "chars_ok P ic (Alt a b) = (chars_ok P ic a \<and> chars_ok P ic b)"
| "chars_ok P ic (Rep m n a) = chars_ok P ic a"
| "chars_ok P ic (Grp k a) = chars_ok P ic a"

fun head_ok :: "(char \<Rightarrow> bool) \<Rightarrow> bool \<Rightarrow> regex \<Rightarrow> bool" where
  "head_ok P ic (Cls its) = (\<forall>c. class_match ic its c \<longrightarrow> P c)"
| "head_ok P ic (Lit ds) = (case ds of [] \<Rightarrow> True | d # _ \<Rightarrow> (\<forall>c. lit_match ic d c \<longrightarrow> P c))"
| "head_ok P ic Dot = (\<forall>c. c \<noteq> nl \<longrightarrow> P c)"
| "head_ok P ic Bnd = True"
| "head_ok P ic Bol = True"
| "head_ok P ic Eol = True"
| "head_ok P ic (Seq a b) = (head_ok P ic a \<and> (0 < min_len a \<or> head_ok P ic b))"
| "head_ok P ic (Alt a b) = (head_ok P ic a \<and> head_ok P ic b)"
| "head_ok P ic (Rep m n a) = head_ok P ic a"
| "head_ok P ic (Grp k a) = head_ok P ic a"

fun last_ok :: "(char \<Rightarrow> bool) \<Rightarrow> bool \<Rightarrow> regex \<Rightarrow> bool" where
  "last_ok P ic (Cls its) = (\<forall>c. class_match ic its c \<longrightarrow> P c)"
| "last_ok P ic (Lit ds) = (ds = [] \<or> (\<forall>c. lit_match ic (last ds) c \<longrightarrow> P c))"
| "last_ok P ic Dot = (\<forall>c. c \<noteq> nl \<longrightarrow> P c)"
| "last_ok P ic Bnd = True"
| "last_ok P ic Bol = True"
| "last_ok P ic Eol = True"
| "last_ok P ic (Seq a b) = (last_ok P ic b \<and> (0 < min_len b \<or> last_ok P ic a))"
| "last_ok P ic (Alt a b) = (last_ok P ic a \<and> last_ok P ic b)"
| "last_ok P ic (Rep m n a) = last_ok P ic a"
| "last_ok P ic (Grp k a) = last_ok P ic a"

text \<open>\<open>sets_group k a\<close>: every match of \<open>a\<close> captures group \<open>k\<close>.\<close>

fun sets_group :: "nat \<Rightarrow> regex \<Rightarrow> bool" where
  "sets_group k (Grp j a) = (j = k \<or> sets_group k a)"
| "sets_group k (Seq a b) = (sets_group k a \<or> sets_group k b)"
| "sets_group k (Alt a b) = (sets_group k a \<and> sets_group k b)"
| "sets_group k (Cls its) = False"
| "sets_group k (Lit ds) = False"
| "sets_group k Dot = False"
| "sets_group k Bnd = False"
| "sets_group k Bol = False"
| "sets_group k Eol = False"
| "sets_group k (Rep m n a) = False"

section \<open>Example inputs\<close>

definition long_text :: string where
  "long_text = ''skills'' @ nl # replicate 2001 CHR ''a'' @ nl # ''1.''"

definition short_text :: string where
  "short_text = ''SKILLS'' @ nl # ''Python, SQL''"

definition bsc :: education_entry where
  "bsc = \<lparr>degree = Some ''Bachelor of Science'', institution = None, year = None,
          field = None, gpa = None, honors = []\<rparr>"

definition env5 :: match_env where
  "env5 = \<lparr>embedding_model = None, current_year = 2026\<rparr>"

definition engineer_entry :: experience_entry where
  "engineer_entry = \<lparr>title = Some ''Software Engineer'', company = None, start_date = None,
     end_date = None, description = [], achievements = [], technologies = []\<rparr>"

definition profile5 :: parsed_data where
  "profile5 = empty_profile\<lparr>experience := [engineer_entry],
     education := [bsc\<lparr>degree := None\<rparr>], skills := [''Python'']\<rparr>"

definition job5 :: string where
  "job5 = ''Python engineer with a degree''"


text \<open>A parser without entity recognisers, and a text that holds a phone number.\<close>

definition env0 :: parser_env where
  "env0 = \<lparr>spacy_nlp = None, transformer_ner = None, set_order = remdups\<rparr>"

definition phone_text :: string where
  "phone_text = ''call 5551234567 now''"

section \<open>Properties of the confidence scorer\<close>












text \<open>
  Claim C3 (the part the code misses). The scorer's floor rule looks at the name, the email, the
  phone, the experience, the education, the skills and the summary only. A profile whose single
  recovered fact is a location, a LinkedIn handle or a GitHub handle has a weighted sum of zero
  and still scores 0, not 10.
\<close>

theorem C3_location_only_scores_zero:
  "calculate_confidence_enhanced
     (empty_profile\<lparr>personal := empty_personal\<lparr>location := Some ''Berlin''\<rparr>\<rparr>) = 0
   \<and> calculate_confidence_enhanced
     (empty_profile\<lparr>personal := empty_personal\<lparr>linkedin := Some ''linkedin.com/in/jdoe''\<rparr>\<rparr>) = 0
   \<and> calculate_confidence_enhanced
     (empty_profile\<lparr>personal := empty_personal\<lparr>github := Some ''github.com/jdoe''\<rparr>\<rparr>) = 0
   \<and> calculate_confidence_enhanced empty_profile = 0"
  by (simp add: calculate_confidence_enhanced_def raw_score_def has_any_data_def
      personal_points_def experience_points_def education_points_def skills_points_def
      summary_points_def bonus_points_def empty_profile_def empty_personal_def)


section \<open>Properties of the relevancy scoring engine\<close>

lemma round_half_even_bounds:
  assumes "0 \<le> y" "y \<le> of_int n"
  shows "0 \<le> round_half_even y \<and> round_half_even y \<le> n"
proof -
  let ?f = "\<lfloor>y\<rfloor>"
  have f0: "0 \<le> ?f" using assms(1) by simp
  have fn: "?f \<le> n" using assms(2) by (simp add: floor_le_iff) 
  have lo: "?f \<le> round_half_even y" by (simp add: round_half_even_def Let_def)
  have hi: "round_half_even y \<le> n"
  proof (cases "?f = n")
    case True
    then have "y - of_int ?f \<le> 0" using assms(2) by simp
    then show ?thesis using True by (simp add: round_half_even_def Let_def)
  next
    case False
    then have "?f + 1 \<le> n" using fn by simp
    then show ?thesis by (simp add: round_half_even_def Let_def)
  qed
  from f0 lo hi show ?thesis by linarith
qed

lemma py_round_unit:
  assumes "0 \<le> x" "x \<le> 1"
  shows "0 \<le> py_round n x \<and> py_round n x \<le> 1"
proof -
  have a: "0 \<le> x * 10 ^ n" using assms by simp
  have b: "x * 10 ^ n \<le> of_int (10 ^ n)" using assms by (simp add: mult_left_le_one_le)
  from round_half_even_bounds [OF a b]
  have c: "0 \<le> round_half_even (x * 10 ^ n) \<and> round_half_even (x * 10 ^ n) \<le> 10 ^ n" .
  have "(of_int (round_half_even (x * 10 ^ n)) :: rat) \<le> of_int (10 ^ n)"
    using c by (simp only: of_int_le_iff)
  then show ?thesis using c by (simp add: py_round_def divide_le_eq)
qed

lemma py_round_zero: "py_round n 0 = 0"
  by (simp add: py_round_def round_half_even_def)


lemma match_skills_spec:
  "\<exists>r. match_skills resume_skills job_desc = Inr r
     \<and> 0 \<le> sk_score r \<and> sk_score r \<le> 1
     \<and> (list_all (\<lambda>skill. \<not> contains job_desc skill) common_skills_match
          \<longrightarrow> required_skills r = [] \<and> sk_score r = 0)"
proof -
  define required where "required = filter (\<lambda>skill. contains job_desc skill) common_skills_match"
  define matched where
    "matched = filter (\<lambda>skill. list_ex (\<lambda>req. contains skill req \<or> contains req skill) required)
                 resume_skills"
  define score :: rat where
    "score = (if required \<noteq> [] then of_nat (length matched) / of_nat (max (length required) 1) else 0)"
  have s0: "0 \<le> min score 1" by (simp add: score_def)
  have s1: "min score 1 \<le> 1" by simp
  have b: "0 \<le> py_round 2 (min score 1) \<and> py_round 2 (min score 1) \<le> 1"
    using py_round_unit [OF s0 s1] .
  have none: "list_all (\<lambda>skill. \<not> contains job_desc skill) common_skills_match \<Longrightarrow> required = []"
    by (simp add: required_def filter_empty_conv list_all_iff)
  have eq: "match_skills resume_skills job_desc =
      Inr \<lparr>sk_score = py_round 2 (min score 1), matched_skills = matched,
           required_skills = required,
           missing_skills = filter (\<lambda>s. \<not> list_ex (\<lambda>rs. contains rs s \<or> contains s rs) matched) required\<rparr>"
    unfolding match_skills_def py_div_def Let_def required_def [symmetric] matched_def [symmetric]
    by (simp add: score_def)
  show ?thesis using b none by (auto simp: eq score_def py_round_zero)
qed



text \<open>
  Claim C9. For every list of resume skills and every job text, \<open>_match_skills\<close> returns
  without raising (its division has the divisor \<open>max(len(required_skills), 1)\<close>), its score
  lies between 0 and 1, and when the job text contains none of the terms of the reference
  vocabulary the list of required skills is empty and the score is exactly 0.
\<close>

theorem C9_skill_match_bounded:
  "\<exists>r. match_skills resume_skills job_desc = Inr r
     \<and> 0 \<le> sk_score r \<and> sk_score r \<le> 1
     \<and> (list_all (\<lambda>skill. \<not> contains job_desc skill) common_skills_match
          \<longrightarrow> required_skills r = [] \<and> sk_score r = 0)"
  by (rule match_skills_spec)

theorem C9_skill_match_bounded_witness:
  "list_all (\<lambda>skill. \<not> contains ''we need a plumber'' skill) common_skills_match
   \<and> (\<exists>r. match_skills [''python'', ''sql''] ''we need a plumber'' = Inr r
          \<and> 0 \<le> sk_score r \<and> sk_score r \<le> 1 \<and> required_skills r = [] \<and> sk_score r = 0)"
proof -
  have h: "list_all (\<lambda>skill. \<not> contains ''we need a plumber'' skill) common_skills_match"
    by (simp add: common_skills_match_def)
  show ?thesis using h C9_skill_match_bounded [of "[''python'', ''sql'']" "''we need a plumber''"] by auto
qed


lemma match_skills_unit:
  "\<exists>r. match_skills rs jd = Inr r \<and> 0 \<le> sk_score r \<and> sk_score r \<le> 1"
  using match_skills_spec [of rs jd] by blast

lemma any_degree_strings:
  "list_all (\<lambda>e. degree e \<noteq> None) edus \<Longrightarrow>
   any_degree req edus = Inr (list_ex (\<lambda>e. contains (lower (the (degree e))) req) edus)"
  by (induction edus) auto

lemma find_required_degree_None:
  "find_required_degree jd = None \<longleftrightarrow> list_all (\<lambda>k. \<not> contains jd k) degree_keywords"
  by (auto simp: find_required_degree_def find_None_iff list_all_iff)

text \<open>
  Claim C4, as stated, fails: with an empty education list the component returns 0.0 whether
  or not the job text names a degree keyword.
\<close>

theorem C4_counterexample:
  "find_required_degree ''python developer wanted'' = None
   \<and> (\<exists>r. match_education [] ''python developer wanted'' = Inr r \<and> ed_score r = 0
          \<and> ed_score r \<noteq> 8 / 10)"
  by (simp add: match_education_def find_required_degree_def degree_keywords_def)

text \<open>
  Claim C4, amended. The education component returns 0.0 when the profile's education list is
  empty. When the list is not empty it returns 0.8 if the job text contains no degree keyword;
  otherwise, every degree being a string, it returns 1.0 if some resume degree contains (in
  lower case) the first keyword of bachelor, master, phd, doctorate, degree that the job text
  contains, and 0.3 if none does.
\<close>

theorem C4_education_match:
  "(edus = [] \<longrightarrow> (\<exists>r. match_education edus job_desc = Inr r \<and> ed_score r = 0))
   \<and> (edus \<noteq> [] \<and> list_all (\<lambda>k. \<not> contains job_desc k) degree_keywords
        \<longrightarrow> (\<exists>r. match_education edus job_desc = Inr r \<and> ed_score r = 8 / 10))
   \<and> (edus \<noteq> [] \<and> find_required_degree job_desc = Some req
        \<and> list_all (\<lambda>e. degree e \<noteq> None) edus
        \<longrightarrow> (\<exists>r. match_education edus job_desc = Inr r
               \<and> ed_score r = (if list_ex (\<lambda>e. contains (lower (the (degree e))) req) edus
                                then 1 else 3 / 10)))"
  by (simp add: match_education_def any_degree_strings find_required_degree_None [symmetric])

theorem C4_education_match_witness:
  "(\<exists>r. match_education [] ''a master degree'' = Inr r \<and> ed_score r = 0)
   \<and> (\<exists>r. match_education [bsc] ''python developer wanted'' = Inr r \<and> ed_score r = 8 / 10)
   \<and> (\<exists>r. match_education [bsc] ''bachelor or master'' = Inr r \<and> ed_score r = 1)
   \<and> (\<exists>r. match_education [bsc] ''a master degree'' = Inr r \<and> ed_score r = 3 / 10)"
proof -
  have k1: "list_all (\<lambda>k. \<not> contains ''python developer wanted'' k) degree_keywords"
    by (simp add: degree_keywords_def)
  have k2: "find_required_degree ''bachelor or master'' = Some ''bachelor''"
    by (simp add: find_required_degree_def degree_keywords_def)
  have k3: "find_required_degree ''a master degree'' = Some ''master''"
    by (simp add: find_required_degree_def degree_keywords_def)
  have d: "list_all (\<lambda>e. degree e \<noteq> None) [bsc]" by (simp add: bsc_def)
  have l2: "list_ex (\<lambda>e. contains (lower (the (degree e))) ''bachelor'') [bsc]"
    by (simp add: bsc_def) code_simp
  have l3: "\<not> list_ex (\<lambda>e. contains (lower (the (degree e))) ''master'') [bsc]"
    by (simp add: bsc_def) code_simp
  show ?thesis
    using C4_education_match [of "[]" "''a master degree''"]
      C4_education_match [of "[bsc]" "''python developer wanted''"]
      C4_education_match [of "[bsc]" "''bachelor or master''" "''bachelor''"]
      C4_education_match [of "[bsc]" "''a master degree''" "''master''"]
      k1 k2 k3 d l2 l3
    by simp
qed


lemma match_titles_total: "\<exists>r. match_titles ts jd = Inr r"
  by (simp add: match_titles_def py_div_def Let_def)


lemma relevant_experience_raises:
  "\<not> list_all (\<lambda>e. title e \<noteq> None) es \<Longrightarrow> relevant_experience es = Inl AttributeError"
  by (induction es) (auto split: option.splits sum.splits)



lemma frac_unit:
  fixes a b :: nat
  assumes "a \<le> b"
  shows "0 \<le> (of_nat a :: rat) / of_nat (max b 1) \<and> (of_nat a :: rat) / of_nat (max b 1) \<le> 1"
proof -
  have "(of_nat a :: rat) \<le> of_nat (max b 1)" using assms by simp
  moreover have "(0 :: rat) < of_nat (max b 1)" by simp
  ultimately show ?thesis by (simp add: divide_le_eq)
qed



lemma match_experience_raises:
  assumes "\<not> list_all (\<lambda>e. title e \<noteq> None) es"
  shows "match_experience now es jd = Inl AttributeError"
proof -
  have ne: "es \<noteq> []" using assms by auto
  show ?thesis
    unfolding match_experience_def Let_def
    using ne relevant_experience_raises [OF assms]
    by (simp add: py_div_def)
qed


lemma match_titles_unit:
  "\<exists>r. match_titles ts jd = Inr r \<and> 0 \<le> ti_score r \<and> ti_score r \<le> 1"
proof (cases "ts = []")
  case True
  then show ?thesis by (simp add: match_titles_def)
next
  case False
  define kws where "kws = filter (\<lambda>kw. contains jd kw) title_keywords"
  define matched where "matched = filter (\<lambda>t. list_ex (\<lambda>kw. contains t kw) kws) ts"
  have le: "length matched \<le> length ts" by (simp add: matched_def)
  have b: "0 \<le> py_round 2 (of_nat (length matched) / of_nat (max (length ts) 1))
        \<and> py_round 2 (of_nat (length matched) / of_nat (max (length ts) 1)) \<le> 1"
    using py_round_unit frac_unit [OF le] by blast
  have eq: "match_titles ts jd = Inr \<lparr>ti_score = py_round 2 (of_nat (length matched) / of_nat (max (length ts) 1)),
      matched_titles = matched, relevant_keywords = Some kws\<rparr>"
    unfolding match_titles_def Let_def kws_def [symmetric] matched_def [symmetric]
    using False by (simp add: py_div_def)
  show ?thesis using b by (simp add: eq)
qed






text \<open>
  Claim C5, as stated, fails: when the education component raises (a degree that is
  \<open>None\<close>, with a degree keyword in the job text), the title component, which would score
  1.0, is never run: the result keeps \<open>title_match = 0.0\<close>, and \<open>detailed_scores\<close> holds no
  entry for the title or for the failed education component.
\<close>

theorem C5_counterexample:
  "match_education (education profile5) (lower job5) = Inl AttributeError
   \<and> map_sum id ti_score (match_titles [''software engineer''] (lower job5)) = Inr 1
   \<and> title_match (calculate_relevancy_score env5 profile5 job5) = 0
   \<and> d_title_match (detailed (calculate_relevancy_score env5 profile5 job5)) = None
   \<and> d_education_match (detailed (calculate_relevancy_score env5 profile5 job5)) = None"
  by code_simp

text \<open>
  Claim C5, amended. The skill and the title component never raise. If the experience or the
  education component raises, scoring stops there: the components computed before it appear
  with their computed scores and details, the failed component and every later one keep the
  default score 0.0 with no entry in \<open>detailed_scores\<close>, \<open>overall_score\<close> stays 0.0, and
  neither a semantic score nor a match summary is produced.
\<close>

theorem C5_failure_stops_scoring:
  "let r = calculate_relevancy_score env d j;
       jd = lower j;
       titles = map (\<lambda>e. lower (the (title e))) (filter (\<lambda>e. truthy (title e)) (experience d))
   in (\<exists>sm. match_skills (map lower (skills d)) jd = Inr sm
           \<and> skill_match r = sk_score sm \<and> d_skill_match (detailed r) = Some sm)
    \<and> (\<exists>tm. match_titles titles jd = Inr tm)
    \<and> (\<forall>err. match_experience (current_year env) (experience d) jd = Inl err \<longrightarrow>
          experience_match r = 0 \<and> education_match r = 0 \<and> title_match r = 0
        \<and> overall_score r = 0
        \<and> d_experience_match (detailed r) = None \<and> d_education_match (detailed r) = None
        \<and> d_title_match (detailed r) = None
        \<and> semantic_score r = None \<and> match_summary r = None)
    \<and> (\<forall>em err. match_experience (current_year env) (experience d) jd = Inr em
          \<and> match_education (education d) jd = Inl err \<longrightarrow>
          experience_match r = ex_score em \<and> d_experience_match (detailed r) = Some em
        \<and> education_match r = 0 \<and> title_match r = 0 \<and> overall_score r = 0
        \<and> d_education_match (detailed r) = None \<and> d_title_match (detailed r) = None
        \<and> semantic_score r = None \<and> match_summary r = None)"
proof -
  obtain sm where sm: "match_skills (map lower (skills d)) (lower j) = Inr sm"
    using match_skills_unit by blast
  obtain tm where tm: "match_titles (map (\<lambda>e. lower (the (title e)))
      (filter (\<lambda>e. truthy (title e)) (experience d))) (lower j) = Inr tm"
    using match_titles_unit by blast
  show ?thesis
    unfolding Let_def
    using sm tm
    by (auto simp: calculate_relevancy_score_def Let_def initial_scores_def
        split: sum.splits option.splits)
qed

theorem C5_failure_stops_scoring_witness:
  "match_education (education profile5) (lower job5) = Inl AttributeError
   \<and> (let r = calculate_relevancy_score env5 profile5 job5
      in education_match r = 0 \<and> title_match r = 0 \<and> overall_score r = 0
       \<and> d_education_match (detailed r) = None \<and> d_title_match (detailed r) = None
       \<and> match_summary r = None)
   \<and> match_experience 2026 [engineer_entry\<lparr>title := None\<rparr>] (lower job5) = Inl AttributeError
   \<and> (let r = calculate_relevancy_score env5
                (profile5\<lparr>experience := [engineer_entry\<lparr>title := None\<rparr>]\<rparr>) job5
      in experience_match r = 0 \<and> education_match r = 0 \<and> title_match r = 0
       \<and> overall_score r = 0 \<and> d_experience_match (detailed r) = None
       \<and> match_summary r = None)"
proof -
  have a: "match_education (education profile5) (lower job5) = Inl AttributeError"
    by code_simp
  have a': "\<exists>em. match_experience (current_year env5) (experience profile5) (lower job5) = Inr em"
    by (rule exI [of _ "projr (match_experience (current_year env5) (experience profile5) (lower job5))"])
       code_simp
  have b: "match_experience 2026 [engineer_entry\<lparr>title := None\<rparr>] (lower job5) = Inl AttributeError"
    by (rule match_experience_raises) simp
  have b': "match_experience (current_year env5)
      (experience (profile5\<lparr>experience := [engineer_entry\<lparr>title := None\<rparr>]\<rparr>)) (lower job5)
      = Inl AttributeError"
    using b by (simp add: env5_def)
  show ?thesis
    using a a' b b' C5_failure_stops_scoring [of env5 profile5 job5]
      C5_failure_stops_scoring [of env5 "profile5\<lparr>experience := [engineer_entry\<lparr>title := None\<rparr>]\<rparr>" job5]
    by (auto simp: Let_def)
qed



section \<open>Properties of the matcher\<close>

lemma of_char_lt_256: "(of_char c :: nat) < 256"
  by (metis of_char_mod_256 mod_less_divisor zero_less_numeral)

lemma in_range_nat:
  "in_range lo hi c \<longleftrightarrow> (of_char lo :: nat) \<le> of_char c \<and> (of_char c :: nat) \<le> of_char hi"
  by (simp add: in_range_def less_eq_char_def)

text \<open>The three runs of upper-case letters and what lowering does to each.\<close>

lemma is_upper_nat:
  "is_upper c \<longleftrightarrow> (65 \<le> (of_char c :: nat) \<and> (of_char c :: nat) \<le> 90)
     \<or> (192 \<le> (of_char c :: nat) \<and> (of_char c :: nat) \<le> 214)
     \<or> (216 \<le> (of_char c :: nat) \<and> (of_char c :: nat) \<le> 222)"
  by (simp add: is_upper_def in_range_nat)

lemma lowered_nat:
  assumes "is_upper c"
  shows "(of_char (char_of (of_char c + (32::nat))) :: nat) = of_char c + 32"
proof -
  have "(of_char c :: nat) + 32 < 256" using assms unfolding is_upper_nat by linarith
  then show ?thesis by simp
qed

lemma lowered_not_upper:
  assumes "is_upper c"
  shows "\<not> is_upper (char_of (of_char c + (32::nat)))"
  using assms unfolding is_upper_nat lowered_nat [OF assms] by linarith

lemma lower_char_idem: "lower_char (lower_char c) = lower_char c"
  using lowered_not_upper [of c] by (simp add: lower_char_def)

lemma is_word_ranges:
  "is_word c \<longleftrightarrow> (97 \<le> (of_char c :: nat) \<and> (of_char c :: nat) \<le> 122)
     \<or> (65 \<le> (of_char c :: nat) \<and> (of_char c :: nat) \<le> 90)
     \<or> (48 \<le> (of_char c :: nat) \<and> (of_char c :: nat) \<le> 57)
     \<or> c = CHR ''_''
     \<or> c = CHR 0xAA \<or> c = CHR 0xB2 \<or> c = CHR 0xB3 \<or> c = CHR 0xB5 \<or> c = CHR 0xB9
     \<or> c = CHR 0xBA
     \<or> (188 \<le> (of_char c :: nat) \<and> (of_char c :: nat) \<le> 190)
     \<or> (192 \<le> (of_char c :: nat) \<and> (of_char c :: nat) \<le> 214)
     \<or> (216 \<le> (of_char c :: nat) \<and> (of_char c :: nat) \<le> 246)
     \<or> (248 \<le> (of_char c :: nat) \<and> (of_char c :: nat) \<le> 255)"
  by (simp add: is_word_def is_decimal_def in_range_nat)

lemma upper_is_word: "is_upper c \<Longrightarrow> is_word c"
  unfolding is_upper_nat is_word_ranges by linarith

lemma lowered_is_word:
  assumes "is_upper c"
  shows "is_word (char_of (of_char c + (32::nat)))"
proof -
  have "(97 \<le> (of_char c :: nat) + 32 \<and> (of_char c :: nat) + 32 \<le> 122)
      \<or> (216 \<le> (of_char c :: nat) + 32 \<and> (of_char c :: nat) + 32 \<le> 246)
      \<or> (248 \<le> (of_char c :: nat) + 32 \<and> (of_char c :: nat) + 32 \<le> 255)"
    using assms unfolding is_upper_nat by linarith
  then show ?thesis
    unfolding is_word_ranges [of "char_of (of_char c + (32::nat))"] lowered_nat [OF assms]
    by blast
qed

lemma is_word_lower_char: "is_word (lower_char c) = is_word c"
  using upper_is_word [of c] lowered_is_word [of c] by (simp add: lower_char_def)

lemma lit_run_shape:
  "lit_run ic ds l r = Some (l', r') \<Longrightarrow>
   \<exists>mid. l' = rev mid @ l \<and> r = mid @ r' \<and> length mid = length ds
         \<and> list_all2 (lit_match ic) ds mid"
proof (induction ds arbitrary: l r)
  case Nil
  then show ?case by simp
next
  case (Cons d ds)
  then obtain c rr where r: "r = c # rr" by (cases r) auto
  with Cons.prems have m: "lit_match ic d c" and run: "lit_run ic ds (c # l) rr = Some (l', r')"
    by (auto split: if_splits)
  from Cons.IH [OF run] obtain mid where
    "l' = rev mid @ c # l" "rr = mid @ r'" "length mid = length ds" "list_all2 (lit_match ic) ds mid"
    by blast
  then show ?case using r m by (intro exI [of _ "c # mid"]) simp
qed

text \<open>Every end state of a match lies to the right of its start: the matcher consumes a
  piece \<open>mid\<close> of the text, and leaves the rest of the subject alone.\<close>

lemma rx_consumes:
  "s' \<in> set (rx ic a s) \<Longrightarrow>
   \<exists>mid. fst s' = rev mid @ fst s \<and> fst (snd s) = mid @ fst (snd s')"
proof (induction ic a s arbitrary: s' rule: rx.induct)
  case (1 ic its l r g)
  then show ?case by (auto split: list.splits if_splits)
next
  case (2 ic ds l r g)
  then show ?case by (auto split: option.splits dest: lit_run_shape lit_run_shape [OF sym])
next
  case (3 ic l r g)
  then show ?case by (auto split: list.splits if_splits)
next
  case (4 ic l r g)
  then show ?case by (auto split: if_splits)
next
  case (5 ic l r g)
  then show ?case by (auto split: if_splits)
next
  case (6 ic l r g)
  then show ?case by (auto split: if_splits)
next
  case (7 ic a b s)
  from "7.prems" obtain s1 where s1: "s1 \<in> set (rx ic a s)" "s' \<in> set (rx ic b s1)" by auto
  from "7.IH"(1) [OF s1(1)] obtain m1 where m1: "fst s1 = rev m1 @ fst s" "fst (snd s) = m1 @ fst (snd s1)"
    by blast
  from "7.IH"(2) [OF s1(1) s1(2)] obtain m2 where m2: "fst s' = rev m2 @ fst s1" "fst (snd s1) = m2 @ fst (snd s')"
    by blast
  show ?case using m1 m2 by (intro exI [of _ "m1 @ m2"]) simp
next
  case (8 ic a b s)
  from "8.prems" have "s' \<in> set (rx ic a s) \<or> s' \<in> set (rx ic b s)" by simp
  then show ?case using "8.IH" by blast
next
  case (9 ic m n a l r g)
  show ?case
  proof (cases "n = Some 0")
    case True
    with "9.prems" show ?thesis by (simp add: rx.simps(9))
  next
    case False
    from "9.prems" False have
      "s' \<in> set (concat (map (rx ic (Rep (m - 1) (dec_max n) a))
                    (filter (\<lambda>s'. length (fst (snd s')) < length r) (rx ic a (l, r, g))))
           @ (if m = 0 then [(l, r, g)] else []))"
      by (simp add: rx.simps(9))
    then consider
      (iter) s1 where "s1 \<in> set (rx ic a (l, r, g))" "length (fst (snd s1)) < length r"
                      "s' \<in> set (rx ic (Rep (m - 1) (dec_max n) a) s1)"
      | (stop) "s' = (l, r, g)"
      by (auto split: if_splits)
    then show ?thesis
    proof cases
      case iter
      from "9.IH"(1) [OF False iter(1)] obtain m1 where
        m1: "fst s1 = rev m1 @ l" "r = m1 @ fst (snd s1)" by auto
      have mem: "s1 \<in> set (filter (\<lambda>s'. length (fst (snd s')) < length r) (rx ic a (l, r, g)))"
        using iter by simp
      from "9.IH"(2) [OF False mem iter(3)] obtain m2 where
        m2: "fst s' = rev m2 @ fst s1" "fst (snd s1) = m2 @ fst (snd s')" by blast
      show ?thesis using m1 m2 by (intro exI [of _ "m1 @ m2"]) simp
    next
      case stop
      then show ?thesis by simp
    qed
  qed
next
  case (10 ic k a l r g)
  then show ?case by (auto simp: case_prod_beta)
qed

text \<open>What \<open>re.search\<close> returns: the leftmost position with a match, and there the
  match the matcher prefers.\<close>

lemma search_from_None:
  "search_from ic a l r = None \<longleftrightarrow> (\<forall>pre post. r = pre @ post \<longrightarrow> rx ic a (rev pre @ l, post, []) = [])"
proof (induction r arbitrary: l)
  case Nil
  then show ?case by (auto split: list.splits)
next
  case (Cons c r)
  show ?case
  proof (cases "rx ic a (l, c # r, [])")
    case (Cons e es)
    then have "search_from ic a l (c # r) \<noteq> None" by simp
    moreover have "\<not> (\<forall>pre post. c # r = pre @ post \<longrightarrow> rx ic a (rev pre @ l, post, []) = [])"
      using Cons by (auto intro: exI [of _ "[]"])
    ultimately show ?thesis by blast
  next
    case Nil
    then have s: "search_from ic a l (c # r) = search_from ic a (c # l) r" by simp
    have "(\<forall>pre post. c # r = pre @ post \<longrightarrow> rx ic a (rev pre @ l, post, []) = [])
        \<longleftrightarrow> (\<forall>pre post. r = pre @ post \<longrightarrow> rx ic a (rev pre @ c # l, post, []) = [])"
    proof
      assume h: "\<forall>pre post. c # r = pre @ post \<longrightarrow> rx ic a (rev pre @ l, post, []) = []"
      show "\<forall>pre post. r = pre @ post \<longrightarrow> rx ic a (rev pre @ c # l, post, []) = []"
      proof (intro allI impI)
        fix pre post assume "r = pre @ post"
        then have "c # r = (c # pre) @ post" by simp
        from h [rule_format, OF this] show "rx ic a (rev pre @ c # l, post, []) = []" by simp
      qed
    next
      assume h: "\<forall>pre post. r = pre @ post \<longrightarrow> rx ic a (rev pre @ c # l, post, []) = []"
      show "\<forall>pre post. c # r = pre @ post \<longrightarrow> rx ic a (rev pre @ l, post, []) = []"
      proof (intro allI impI)
        fix pre post assume e: "c # r = pre @ post"
        show "rx ic a (rev pre @ l, post, []) = []"
        proof (cases pre)
          case Nil
          with e Nil show ?thesis using \<open>rx ic a (l, c # r, []) = []\<close> by simp
        next
          case (Cons p ps)
          with e have "p = c" "r = ps @ post" by simp_all
          from h [rule_format, OF this(2)] show ?thesis using Cons \<open>p = c\<close> by simp
        qed
      qed
    qed
    then show ?thesis using s Cons.IH [of "c # l"] by simp
  qed
qed

lemma search_from_Some:
  assumes "search_from ic a l r = Some (s, e)"
  shows "\<exists>pre post. r = pre @ post \<and> s = (rev pre @ l, post, [])
           \<and> rx ic a s \<noteq> [] \<and> e = hd (rx ic a s)
           \<and> (\<forall>pre' post'. r = pre' @ post' \<and> length pre' < length pre
                 \<longrightarrow> rx ic a (rev pre' @ l, post', []) = [])"
  using assms
proof (induction r arbitrary: l)
  case Nil
  then show ?case by (auto split: list.splits)
next
  case (Cons c r)
  show ?case
  proof (cases "rx ic a (l, c # r, []) = []")
    case False
    then obtain e' es where hit: "rx ic a (l, c # r, []) = e' # es"
      by (cases "rx ic a (l, c # r, [])") auto
    with Cons.prems have "s = (l, c # r, [])" "e = e'" by simp_all
    then show ?thesis using hit by (intro exI [of _ "[]"] exI [of _ "c # r"]) simp
  next
    case True
    with Cons.prems have "search_from ic a (c # l) r = Some (s, e)" by simp
    from Cons.IH [OF this] obtain pre post where
      p: "r = pre @ post" "s = (rev pre @ c # l, post, [])" "rx ic a s \<noteq> []" "e = hd (rx ic a s)"
         "\<forall>pre' post'. r = pre' @ post' \<and> length pre' < length pre
              \<longrightarrow> rx ic a (rev pre' @ c # l, post', []) = []"
      by blast
    have "\<forall>pre' post'. c # r = pre' @ post' \<and> length pre' < length (c # pre)
              \<longrightarrow> rx ic a (rev pre' @ l, post', []) = []"
    proof (intro allI impI)
      fix pre' post' assume h: "c # r = pre' @ post' \<and> length pre' < length (c # pre)"
      show "rx ic a (rev pre' @ l, post', []) = []"
      proof (cases pre')
        case Nil
        with h show ?thesis using True by simp
      next
        case (Cons q qs)
        with h have "q = c" "r = qs @ post'" "length qs < length pre" by simp_all
        with p(5) show ?thesis using Cons by simp
      qed
    qed
    then show ?thesis using p by (intro exI [of _ "c # pre"] exI [of _ post]) simp
  qed
qed

lemma lit_run_complete:
  "length mid = length ds \<Longrightarrow> list_all2 (lit_match ic) ds mid \<Longrightarrow>
   lit_run ic ds l (mid @ r') = Some (rev mid @ l, r')"
proof (induction ds arbitrary: l mid)
  case Nil
  then show ?case by simp
next
  case (Cons d ds)
  then obtain c cs where "mid = c # cs" by (cases mid) auto
  with Cons show ?case by simp
qed

lemma lit_match_lower: "list_all2 (lit_match True) ds mid \<longleftrightarrow> lower mid = lower ds"
  by (induction ds arbitrary: mid) (auto simp: lower_def lit_match_def list_all2_Cons1)

lemma rx_word_pattern:
  "rx True (word_pattern kw) (l, r, []) =
     (if \<exists>mid post. r = mid @ post \<and> word_at kw l mid post
      then [(rev (take (length kw) r) @ l, drop (length kw) r, [])] else [])"
proof (cases "lit_run True kw l r")
  case None
  have "\<not> (\<exists>mid post. r = mid @ post \<and> word_at kw l mid post)"
  proof
    assume "\<exists>mid post. r = mid @ post \<and> word_at kw l mid post"
    then obtain mid post where h: "r = mid @ post" "lower mid = lower kw" by (auto simp: word_at_def)
    then have "length mid = length kw" by (metis length_map lower_def)
    with h lit_run_complete [of mid kw True l post] None show False
      by (simp add: lit_match_lower)
  qed
  then show ?thesis using None by (simp add: word_pattern_def)
next
  case (Some p)
  then obtain l' r' where p: "p = (l', r')" by (cases p)
  from lit_run_shape [OF Some [unfolded p]] obtain mid where
    m: "l' = rev mid @ l" "r = mid @ r'" "length mid = length kw" "list_all2 (lit_match True) kw mid"
    by blast
  have u: "\<And>mid2 post2. r = mid2 @ post2 \<Longrightarrow> lower mid2 = lower kw \<Longrightarrow> mid2 = mid \<and> post2 = r'"
  proof -
    fix mid2 post2 assume a: "r = mid2 @ post2" "lower mid2 = lower kw"
    then have "length mid2 = length mid" using m(3) by (metis length_map lower_def)
    with a(1) m(2) show "mid2 = mid \<and> post2 = r'" by (simp add: append_eq_append_conv)
  qed
  have td: "take (length kw) r = mid" "drop (length kw) r = r'" using m by simp_all
  show ?thesis
  proof (cases "at_boundary l r \<and> at_boundary l' r'")
    case True
    then have "word_at kw l mid r'" using m by (simp add: word_at_def lit_match_lower)
    then have ex: "\<exists>mid post. r = mid @ post \<and> word_at kw l mid post" using m(2) by blast
    show ?thesis using True Some p ex td m(1) by (simp add: word_pattern_def)
  next
    case False
    have "\<not> (\<exists>mid post. r = mid @ post \<and> word_at kw l mid post)"
    proof
      assume "\<exists>mid post. r = mid @ post \<and> word_at kw l mid post"
      then obtain mid2 post2 where h: "r = mid2 @ post2" "word_at kw l mid2 post2" by blast
      then have "mid2 = mid \<and> post2 = r'" using u by (simp add: word_at_def)
      with h False m show False by (simp add: word_at_def)
    qed
    then show ?thesis using False Some p by (auto simp: word_pattern_def)
  qed
qed

text \<open>The states a quantifier passes on, as a set.\<close>

lemma rx_Rep_cases:
  assumes "s' \<in> set (rx ic (Rep m n a) (l, r, g))"
  obtains (zero) "n = Some 0" "s' = (l, r, g)"
    | (iter) s1 where "n \<noteq> Some 0" "s1 \<in> set (rx ic a (l, r, g))"
        "length (fst (snd s1)) < length r"
        "s1 \<in> set (filter (\<lambda>s'. length (fst (snd s')) < length r) (rx ic a (l, r, g)))"
        "s' \<in> set (rx ic (Rep (m - 1) (dec_max n) a) s1)"
    | (stop) "n \<noteq> Some 0" "m = 0" "s' = (l, r, g)"
proof (cases "n = Some 0")
  case True
  with assms zero show ?thesis by (simp add: rx.simps(9))
next
  case False
  with assms have
    "s' \<in> set (concat (map (rx ic (Rep (m - 1) (dec_max n) a))
                  (filter (\<lambda>s'. length (fst (snd s')) < length r) (rx ic a (l, r, g))))
         @ (if m = 0 then [(l, r, g)] else []))"
    by (simp add: rx.simps(9))
  then show ?thesis using False iter stop by (auto split: if_splits)
qed

lemma rx_min_len:
  "s' \<in> set (rx ic a s) \<Longrightarrow> length (fst s) + min_len a \<le> length (fst s')"
proof (induction ic a s arbitrary: s' rule: rx.induct)
  case (1 ic its l r g)
  then show ?case by (auto split: list.splits if_splits)
next
  case (2 ic ds l r g)
  then show ?case by (auto split: option.splits dest!: lit_run_shape lit_run_shape [OF sym])
next
  case (3 ic l r g)
  then show ?case by (auto split: list.splits if_splits)
next
  case (4 ic l r g)
  then show ?case by (auto split: if_splits)
next
  case (5 ic l r g)
  then show ?case by (auto split: if_splits)
next
  case (6 ic l r g)
  then show ?case by (auto split: if_splits)
next
  case (7 ic a b s)
  from "7.prems" obtain s1 where s1: "s1 \<in> set (rx ic a s)" "s' \<in> set (rx ic b s1)" by auto
  from "7.IH"(1) [OF s1(1)] "7.IH"(2) [OF s1(1) s1(2)] show ?case by simp
next
  case (8 ic a b s)
  from "8.prems" have "s' \<in> set (rx ic a s) \<or> s' \<in> set (rx ic b s)" by simp
  then show ?case using "8.IH" by fastforce
next
  case (9 ic m n a l r g)
  from "9.prems" show ?case
  proof (cases rule: rx_Rep_cases)
    case zero
    then show ?thesis by simp
  next
    case (iter s1)
    from "9.IH"(1) [OF iter(1) iter(2)]
    have a: "length l + min_len a \<le> length (fst s1)" by simp
    define p where "p = (case n of None \<Rightarrow> m | Some k \<Rightarrow> min m k)"
    define q where "q = (case dec_max n of None \<Rightarrow> m - 1 | Some k \<Rightarrow> min (m - 1) k)"
    from "9.IH"(2) [OF iter(1) iter(4) iter(5)]
    have b: "length (fst s1) + q * min_len a \<le> length (fst s')"
      by (simp only: q_def min_len.simps)
    have "p \<le> Suc q"
      unfolding p_def q_def by (cases n) (auto simp: dec_max_def min_def)
    then have "p * min_len a \<le> Suc q * min_len a"
      by (rule mult_le_mono1)
    then have "length l + p * min_len a \<le> length (fst s')"
      using a b by simp
    then show ?thesis by (simp only: p_def min_len.simps fst_conv)
  next
    case stop
    then show ?thesis by (simp split: option.splits)
  qed
next
  case (10 ic k a l r g)
  then show ?case by (auto simp: case_prod_beta)
qed


lemma rx_unchanged:
  assumes "s' \<in> set (rx ic a s)" "fst s' = fst s"
  shows "fst (snd s') = fst (snd s)"
  using rx_consumes [OF assms(1)] assms(2) by auto

lemma rx_chars_ok:
  "chars_ok P ic a \<Longrightarrow> s' \<in> set (rx ic a s) \<Longrightarrow>
   \<exists>mid. fst s' = rev mid @ fst s \<and> fst (snd s) = mid @ fst (snd s') \<and> list_all P mid"
proof (induction ic a s arbitrary: s' rule: rx.induct)
  case (1 ic its l r g)
  then show ?case by (auto split: list.splits if_splits)
next
  case (2 ic ds l r g)
  from "2.prems"(2) obtain l' r' where
    run: "lit_run ic ds l r = Some (l', r')" and s': "s' = (l', r', g)"
    by (cases "lit_run ic ds l r") auto
  from lit_run_shape [OF run] obtain mid where
    m: "l' = rev mid @ l" "r = mid @ r'" "list_all2 (lit_match ic) ds mid" by blast
  have "list_all P mid"
    unfolding list_all_iff
  proof
    fix c
    assume "c \<in> set mid"
    then obtain i where i: "i < length mid" "mid ! i = c" by (auto simp: in_set_conv_nth)
    with m(3) have "lit_match ic (ds ! i) c" "ds ! i \<in> set ds"
      by (auto simp: list_all2_conv_all_nth)
    with "2.prems"(1) show "P c" by simp
  qed
  then show ?case using m s' by auto
next
  case (3 ic l r g)
  then show ?case by (auto split: list.splits if_splits)
next
  case (4 ic l r g)
  then show ?case by (auto split: if_splits)
next
  case (5 ic l r g)
  then show ?case by (auto split: if_splits)
next
  case (6 ic l r g)
  then show ?case by (auto split: if_splits)
next
  case (7 ic a b s)
  from "7.prems" obtain s1 where s1: "s1 \<in> set (rx ic a s)" "s' \<in> set (rx ic b s1)" by auto
  from "7.IH"(1) [OF _ s1(1)] "7.prems"(1) obtain m1 where
    m1: "fst s1 = rev m1 @ fst s" "fst (snd s) = m1 @ fst (snd s1)" "list_all P m1" by auto
  from "7.IH"(2) [OF s1(1) _ s1(2)] "7.prems"(1) obtain m2 where
    m2: "fst s' = rev m2 @ fst s1" "fst (snd s1) = m2 @ fst (snd s')" "list_all P m2" by auto
  show ?case using m1 m2 by (intro exI [of _ "m1 @ m2"]) simp
next
  case (8 ic a b s)
  from "8.prems" have "s' \<in> set (rx ic a s) \<or> s' \<in> set (rx ic b s)" by simp
  then show ?case
  proof
    assume "s' \<in> set (rx ic a s)"
    from "8.IH"(1) [OF _ this] "8.prems"(1) show ?thesis by simp
  next
    assume "s' \<in> set (rx ic b s)"
    from "8.IH"(2) [OF _ this] "8.prems"(1) show ?thesis by simp
  qed
next
  case (9 ic m n a l r g)
  from "9.prems"(2) show ?case
  proof (cases rule: rx_Rep_cases)
    case zero
    then show ?thesis by simp
  next
    case (iter s1)
    from "9.IH"(1) [OF iter(1) _ iter(2)] "9.prems"(1) obtain m1 where
      m1: "fst s1 = rev m1 @ l" "r = m1 @ fst (snd s1)" "list_all P m1" by auto
    from "9.IH"(2) [OF iter(1) iter(4) _ iter(5)] "9.prems"(1) obtain m2 where
      m2: "fst s' = rev m2 @ fst s1" "fst (snd s1) = m2 @ fst (snd s')" "list_all P m2" by auto
    show ?thesis using m1 m2 by (intro exI [of _ "m1 @ m2"]) simp
  next
    case stop
    then show ?thesis by simp
  qed
next
  case (10 ic k a l r g)
  from "10.prems"(2) obtain s1 where
    s1: "s1 \<in> set (rx ic a (l, r, g))" "fst s' = fst s1" "fst (snd s') = fst (snd s1)"
    by (auto simp: case_prod_beta)
  from "10.IH" [OF _ s1(1)] "10.prems"(1) show ?case using s1 by simp
qed

lemma rx_head_ok:
  "head_ok P ic a \<Longrightarrow> s' \<in> set (rx ic a s) \<Longrightarrow>
   fst s' = fst s \<or> (fst (snd s) \<noteq> [] \<and> P (hd (fst (snd s))))"
proof (induction ic a s arbitrary: s' rule: rx.induct)
  case (1 ic its l r g)
  then show ?case by (auto split: list.splits if_splits)
next
  case (2 ic ds l r g)
  from "2.prems"(2) obtain l' r' where
    run: "lit_run ic ds l r = Some (l', r')" and s': "s' = (l', r', g)"
    by (cases "lit_run ic ds l r") auto
  show ?case
  proof (cases ds)
    case Nil
    with run s' show ?thesis by simp
  next
    case (Cons d ds')
    with run obtain c rr where "r = c # rr" "lit_match ic d c"
      by (cases r) (auto split: if_splits)
    with "2.prems"(1) Cons show ?thesis by simp
  qed
next
  case (3 ic l r g)
  then show ?case by (auto split: list.splits if_splits)
next
  case (4 ic l r g)
  then show ?case by (auto split: if_splits)
next
  case (5 ic l r g)
  then show ?case by (auto split: if_splits)
next
  case (6 ic l r g)
  then show ?case by (auto split: if_splits)
next
  case (7 ic a b s)
  from "7.prems" obtain s1 where s1: "s1 \<in> set (rx ic a s)" "s' \<in> set (rx ic b s1)" by auto
  from "7.IH"(1) [OF _ s1(1)] "7.prems"(1)
  have a: "fst s1 = fst s \<or> (fst (snd s) \<noteq> [] \<and> P (hd (fst (snd s))))" by simp
  show ?case
  proof (cases "fst s1 = fst s")
    case False
    with a show ?thesis by simp
  next
    case True
    then have same: "fst (snd s1) = fst (snd s)" using rx_unchanged [OF s1(1)] by simp
    have "\<not> 0 < min_len a" using rx_min_len [OF s1(1)] True by simp
    with "7.prems"(1) have "head_ok P ic b" by simp
    from "7.IH"(2) [OF s1(1) this s1(2)] show ?thesis using True same by simp
  qed
next
  case (8 ic a b s)
  from "8.prems" have "s' \<in> set (rx ic a s) \<or> s' \<in> set (rx ic b s)" by simp
  then show ?case
  proof
    assume "s' \<in> set (rx ic a s)"
    from "8.IH"(1) [OF _ this] "8.prems"(1) show ?thesis by simp
  next
    assume "s' \<in> set (rx ic b s)"
    from "8.IH"(2) [OF _ this] "8.prems"(1) show ?thesis by simp
  qed
next
  case (9 ic m n a l r g)
  from "9.prems"(2) show ?case
  proof (cases rule: rx_Rep_cases)
    case zero
    then show ?thesis by simp
  next
    case (iter s1)
    from "9.IH"(1) [OF iter(1) _ iter(2)] "9.prems"(1)
    have "fst s1 = l \<or> (r \<noteq> [] \<and> P (hd r))" by simp
    moreover have "fst s1 \<noteq> l"
    proof
      assume "fst s1 = l"
      then have "fst (snd s1) = r" using rx_unchanged [OF iter(2)] by simp
      with iter(3) show False by simp
    qed
    ultimately show ?thesis by simp
  next
    case stop
    then show ?thesis by simp
  qed
next
  case (10 ic k a l r g)
  from "10.prems"(2) obtain s1 where
    s1: "s1 \<in> set (rx ic a (l, r, g))" "fst s' = fst s1" "fst (snd s') = fst (snd s1)"
    by (auto simp: case_prod_beta)
  from "10.IH" [OF _ s1(1)] "10.prems"(1) show ?case using s1 by simp
qed

lemma rx_last_ok:
  "last_ok P ic a \<Longrightarrow> s' \<in> set (rx ic a s) \<Longrightarrow>
   fst s' = fst s \<or> (fst s' \<noteq> [] \<and> P (hd (fst s')))"
proof (induction ic a s arbitrary: s' rule: rx.induct)
  case (1 ic its l r g)
  then show ?case by (auto split: list.splits if_splits)
next
  case (2 ic ds l r g)
  from "2.prems"(2) obtain l' r' where
    run: "lit_run ic ds l r = Some (l', r')" and s': "s' = (l', r', g)"
    by (cases "lit_run ic ds l r") auto
  from lit_run_shape [OF run] obtain mid where
    m: "l' = rev mid @ l" "r = mid @ r'" "length mid = length ds" "list_all2 (lit_match ic) ds mid"
    by blast
  show ?case
  proof (cases "ds = []")
    case True
    with m s' show ?thesis by simp
  next
    case False
    then have ne: "mid \<noteq> []" using m(3) by auto
    have "lit_match ic (last ds) (last mid)"
      using m(3) m(4) False ne
      by (simp add: list_all2_conv_all_nth last_conv_nth)
    with "2.prems"(1) False have "P (last mid)" by simp
    then show ?thesis using s' m(1) ne by (simp add: hd_append hd_rev)
  qed
next
  case (3 ic l r g)
  then show ?case by (auto split: list.splits if_splits)
next
  case (4 ic l r g)
  then show ?case by (auto split: if_splits)
next
  case (5 ic l r g)
  then show ?case by (auto split: if_splits)
next
  case (6 ic l r g)
  then show ?case by (auto split: if_splits)
next
  case (7 ic a b s)
  from "7.prems" obtain s1 where s1: "s1 \<in> set (rx ic a s)" "s' \<in> set (rx ic b s1)" by auto
  from "7.IH"(2) [OF s1(1) _ s1(2)] "7.prems"(1)
  have b: "fst s' = fst s1 \<or> (fst s' \<noteq> [] \<and> P (hd (fst s')))" by simp
  show ?case
  proof (cases "fst s' = fst s1")
    case False
    with b show ?thesis by simp
  next
    case True
    have "\<not> 0 < min_len b" using rx_min_len [OF s1(2)] True by simp
    with "7.prems"(1) have "last_ok P ic a" by simp
    from "7.IH"(1) [OF this s1(1)] show ?thesis using True by simp
  qed
next
  case (8 ic a b s)
  from "8.prems" have "s' \<in> set (rx ic a s) \<or> s' \<in> set (rx ic b s)" by simp
  then show ?case
  proof
    assume "s' \<in> set (rx ic a s)"
    from "8.IH"(1) [OF _ this] "8.prems"(1) show ?thesis by simp
  next
    assume "s' \<in> set (rx ic b s)"
    from "8.IH"(2) [OF _ this] "8.prems"(1) show ?thesis by simp
  qed
next
  case (9 ic m n a l r g)
  from "9.prems"(2) show ?case
  proof (cases rule: rx_Rep_cases)
    case zero
    then show ?thesis by simp
  next
    case (iter s1)
    from "9.IH"(1) [OF iter(1) _ iter(2)] "9.prems"(1)
    have a: "fst s1 = l \<or> (fst s1 \<noteq> [] \<and> P (hd (fst s1)))" by simp
    have "fst s1 \<noteq> l"
    proof
      assume "fst s1 = l"
      then have "fst (snd s1) = r" using rx_unchanged [OF iter(2)] by simp
      with iter(3) show False by simp
    qed
    with a have a': "fst s1 \<noteq> [] \<and> P (hd (fst s1))" by simp
    from "9.IH"(2) [OF iter(1) iter(4) _ iter(5)] "9.prems"(1)
    have "fst s' = fst s1 \<or> (fst s' \<noteq> [] \<and> P (hd (fst s')))" by simp
    with a' show ?thesis by auto
  next
    case stop
    then show ?thesis by simp
  qed
next
  case (10 ic k a l r g)
  from "10.prems"(2) obtain s1 where
    s1: "s1 \<in> set (rx ic a (l, r, g))" "fst s' = fst s1" "fst (snd s') = fst (snd s1)"
    by (auto simp: case_prod_beta)
  from "10.IH" [OF _ s1(1)] "10.prems"(1) show ?case using s1 by simp
qed

text \<open>Groups: a group once set stays set, and a pattern with a mandatory group sets it.\<close>

lemma rx_keeps_groups:
  "s' \<in> set (rx ic a s) \<Longrightarrow> map_of (snd (snd s)) k \<noteq> None
   \<Longrightarrow> map_of (snd (snd s')) k \<noteq> None"
proof (induction ic a s arbitrary: s' rule: rx.induct)
  case (1 ic its l r g)
  then show ?case by (auto split: list.splits if_splits)
next
  case (2 ic ds l r g)
  then show ?case by (auto split: option.splits)
next
  case (3 ic l r g)
  then show ?case by (auto split: list.splits if_splits)
next
  case (4 ic l r g)
  then show ?case by (auto split: if_splits)
next
  case (5 ic l r g)
  then show ?case by (auto split: if_splits)
next
  case (6 ic l r g)
  then show ?case by (auto split: if_splits)
next
  case (7 ic a b s)
  from "7.prems" obtain s1 where s1: "s1 \<in> set (rx ic a s)" "s' \<in> set (rx ic b s1)" by auto
  from "7.IH"(1) [OF s1(1) "7.prems"(2)] have "map_of (snd (snd s1)) k \<noteq> None" .
  from "7.IH"(2) [OF s1(1) s1(2) this] show ?case .
next
  case (8 ic a b s)
  from "8.prems" have "s' \<in> set (rx ic a s) \<or> s' \<in> set (rx ic b s)" by simp
  then show ?case
  proof
    assume "s' \<in> set (rx ic a s)"
    from "8.IH"(1) [OF this "8.prems"(2)] show ?thesis .
  next
    assume "s' \<in> set (rx ic b s)"
    from "8.IH"(2) [OF this "8.prems"(2)] show ?thesis .
  qed
next
  case (9 ic m n a l r g)
  from "9.prems"(1) show ?case
  proof (cases rule: rx_Rep_cases)
    case zero
    with "9.prems"(2) show ?thesis by simp
  next
    case (iter s1)
    from "9.IH"(1) [OF iter(1) iter(2) "9.prems"(2)]
    have "map_of (snd (snd s1)) k \<noteq> None" .
    from "9.IH"(2) [OF iter(1) iter(4) iter(5) this] show ?thesis .
  next
    case stop
    with "9.prems"(2) show ?thesis by simp
  qed
next
  case (10 ic j a l r g)
  from "10.prems"(1) obtain s1 where
    s1: "s1 \<in> set (rx ic a (l, r, g))"
        "snd (snd s') = (j, rev (take (length (fst s1) - length l) (fst s1))) # snd (snd s1)"
    by (auto simp: case_prod_beta)
  from "10.IH" [OF s1(1) "10.prems"(2)] have "map_of (snd (snd s1)) k \<noteq> None" .
  with s1(2) show ?case by simp
qed

lemma rx_sets_group:
  "sets_group k a \<Longrightarrow> s' \<in> set (rx ic a s) \<Longrightarrow> map_of (snd (snd s')) k \<noteq> None"
proof (induction a arbitrary: s s')
  case (Seq a b)
  from Seq.prems(2) obtain s1 where s1: "s1 \<in> set (rx ic a s)" "s' \<in> set (rx ic b s1)" by auto
  from Seq.prems(1) have "sets_group k a \<or> sets_group k b" by simp
  then show ?case
  proof
    assume "sets_group k a"
    from Seq.IH(1) [OF this s1(1)] have "map_of (snd (snd s1)) k \<noteq> None" .
    from rx_keeps_groups [OF s1(2) this] show ?thesis .
  next
    assume "sets_group k b"
    from Seq.IH(2) [OF this s1(2)] show ?thesis .
  qed
next
  case (Alt a b)
  from Alt.prems(2) have "s' \<in> set (rx ic a s) \<or> s' \<in> set (rx ic b s)" by simp
  then show ?case
  proof
    assume "s' \<in> set (rx ic a s)"
    with Alt.IH(1) Alt.prems(1) show ?thesis by simp
  next
    assume "s' \<in> set (rx ic b s)"
    with Alt.IH(2) Alt.prems(1) show ?thesis by simp
  qed
next
  case (Grp j a)
  obtain l r g where s: "s = (l, r, g)" by (cases s) auto
  from Grp.prems(2) s obtain s1 where
    s1: "s1 \<in> set (rx ic a (l, r, g))"
        "snd (snd s') = (j, rev (take (length (fst s1) - length l) (fst s1))) # snd (snd s1)"
    by (auto simp: case_prod_beta)
  show ?case
  proof (cases "j = k")
    case True
    with s1(2) show ?thesis by simp
  next
    case False
    with Grp.prems(1) have "sets_group k a" by simp
    from Grp.IH [OF this s1(1)] s1(2) show ?thesis by simp
  qed
qed simp_all

lemma search_group:
  assumes "search ic a t = Some m" "sets_group k a"
  shows "\<not> isl (group_strip m k)"
proof -
  obtain s e where m: "m = (s, e)" by (cases m) auto
  from search_from_Some [OF assms(1) [unfolded search_def m]]
  have "rx ic a s \<noteq> []" "e = hd (rx ic a s)" by auto
  then have "e \<in> set (rx ic a s)" by simp
  from rx_sets_group [OF assms(2) this] have "m_group m k \<noteq> None"
    by (simp add: m m_group_def case_prod_beta)
  then show ?thesis by (auto simp: group_strip_def)
qed

text \<open>Every match that \<open>finditer\<close> yields is a match of the pattern somewhere in the text.\<close>

lemma find_from_matches:
  "m \<in> set (find_from ic a l r) \<Longrightarrow>
   \<exists>pre post e. r = pre @ post \<and> m = ((rev pre @ l, post, []), e)
      \<and> e \<in> set (rx ic a (rev pre @ l, post, []))"
proof (induction ic a l r rule: find_from.induct)
  case (1 ic a l r)
  show ?case
  proof (cases "search_from ic a l r")
    case None
    with "1.prems" show ?thesis by (simp add: find_from.simps [of ic a l r])
  next
    case (Some se)
    obtain s l' r' g' where se: "se = (s, (l', r', g'))" by (cases se) auto
    from search_from_Some [OF Some [unfolded se]] obtain pre post where
      p: "r = pre @ post" "s = (rev pre @ l, post, [])" "rx ic a s \<noteq> []"
         "(l', r', g') = hd (rx ic a s)" by blast
    have first: "\<exists>pre post e. r = pre @ post \<and> (s, (l', r', g')) = ((rev pre @ l, post, []), e)
      \<and> e \<in> set (rx ic a (rev pre @ l, post, []))"
      using p by (intro exI [of _ pre] exI [of _ post] exI [of _ "(l', r', g')"]) simp
    from p(3,4) have mem: "(l', r', g') \<in> set (rx ic a s)" by simp
    from rx_consumes [OF mem] p(2) obtain mid where
      mid: "l' = rev mid @ rev pre @ l" "post = mid @ r'" by auto
    let ?rest = "if length r' < length r then find_from ic a l' r'
             else (case r of [] \<Rightarrow> [] | c # rr \<Rightarrow> find_from ic a (c # l) rr)"
    from "1.prems" Some se have "m = (s, (l', r', g')) \<or> m \<in> set ?rest"
      by (simp add: find_from.simps [of ic a l r])
    then show ?thesis
    proof
      assume "m = (s, (l', r', g'))"
      with first show ?thesis by simp
    next
      assume rest: "m \<in> set ?rest"
      show ?thesis
      proof (cases "length r' < length r")
        case True
        with rest have "m \<in> set (find_from ic a l' r')" by simp
        from "1.IH"(1) [OF Some [unfolded se] refl refl refl True this]
        obtain pre2 post2 e where
          q: "r' = pre2 @ post2" "m = ((rev pre2 @ l', post2, []), e)"
             "e \<in> set (rx ic a (rev pre2 @ l', post2, []))" by blast
        show ?thesis
          using q mid p(1)
          by (intro exI [of _ "pre @ mid @ pre2"] exI [of _ post2] exI [of _ e]) simp
      next
        case False
        show ?thesis
        proof (cases r)
          case Nil
          with rest False show ?thesis by simp
        next
          case (Cons c rr)
          with rest False have "m \<in> set (find_from ic a (c # l) rr)" by simp
          from "1.IH"(2) [OF Some [unfolded se] refl refl refl False Cons this]
          obtain pre2 post2 e where
            q: "rr = pre2 @ post2" "m = ((rev pre2 @ c # l, post2, []), e)"
               "e \<in> set (rx ic a (rev pre2 @ c # l, post2, []))" by blast
          show ?thesis
            using q Cons
            by (intro exI [of _ "c # pre2"] exI [of _ post2] exI [of _ e]) simp
        qed
      qed
    qed
  qed
qed

section \<open>Properties of the section locator\<close>

lemma occurs_at_word_at: "occurs_at kw pre mid post = word_at kw (rev pre) mid post"
  by (simp add: occurs_at_def word_at_def)

lemma lower_lower: "lower (lower s) = lower s"
  by (simp add: lower_def lower_char_idem)

lemma lower_append: "lower (a @ b) = lower a @ lower b"
  by (simp add: lower_def)

lemma lower_rev: "lower (rev a) = rev (lower a)"
  by (simp add: lower_def rev_map)

lemma length_lower: "length (lower s) = length s"
  by (simp add: lower_def)

lemma at_boundary_lower: "at_boundary (lower l) (lower r) = at_boundary l r"
  by (cases l; cases r) (simp_all add: lower_def is_word_lower_char)

lemma word_at_lower:
  "word_at kw (lower l) (lower mid) (lower post) = word_at kw l mid post"
proof -
  have a: "at_boundary (lower l) (lower mid @ lower post) = at_boundary l (mid @ post)"
    using at_boundary_lower [of l "mid @ post"] by (simp add: lower_append)
  have b: "at_boundary (rev (lower mid) @ lower l) (lower post) = at_boundary (rev mid @ l) post"
    using at_boundary_lower [of "rev mid @ l" post] by (simp add: lower_append lower_rev)
  show ?thesis by (simp add: word_at_def a b lower_lower)
qed

lemma lower_split:
  assumes "lower t = a @ b"
  shows "\<exists>x y. t = x @ y \<and> a = lower x \<and> b = lower y"
proof -
  have "t = take (length a) t @ drop (length a) t" by simp
  moreover have "a = lower (take (length a) t)"
    using assms by (metis append_eq_conv_conj lower_def take_map)
  moreover have "b = lower (drop (length a) t)"
    using assms by (metis append_eq_conv_conj lower_def drop_map)
  ultimately show ?thesis by blast
qed

text \<open>At a position of the lowered text, \<open>\bkeyword\b\<close> matches exactly when the keyword
  occurs there in the text itself.\<close>

lemma word_match_lower:
  "(\<exists>mid' post'. lower post0 = mid' @ post' \<and> word_at kw (rev (lower pre)) mid' post')
   \<longleftrightarrow> (\<exists>mid post. post0 = mid @ post \<and> occurs_at kw pre mid post)"
proof
  assume "\<exists>mid' post'. lower post0 = mid' @ post' \<and> word_at kw (rev (lower pre)) mid' post'"
  then obtain mid' post' where h: "lower post0 = mid' @ post'" "word_at kw (rev (lower pre)) mid' post'"
    by blast
  from lower_split [OF h(1)] obtain mid post where
    s: "post0 = mid @ post" "mid' = lower mid" "post' = lower post" by blast
  have "word_at kw (rev pre) mid post"
    using h(2) word_at_lower [of kw "rev pre" mid post] by (simp add: s lower_rev)
  then show "\<exists>mid post. post0 = mid @ post \<and> occurs_at kw pre mid post"
    using s(1) by (auto simp: occurs_at_word_at)
next
  assume "\<exists>mid post. post0 = mid @ post \<and> occurs_at kw pre mid post"
  then obtain mid post where h: "post0 = mid @ post" "word_at kw (rev pre) mid post"
    by (auto simp: occurs_at_word_at)
  have "word_at kw (rev (lower pre)) (lower mid) (lower post)"
    using h(2) word_at_lower [of kw "rev pre" mid post] by (simp add: lower_rev)
  then show "\<exists>mid' post'. lower post0 = mid' @ post' \<and> word_at kw (rev (lower pre)) mid' post'"
    using h(1) by (auto simp: lower_append)
qed

lemma rx_word_lower:
  "rx True (word_pattern kw) (rev (lower pre), lower post0, []) \<noteq> []
   \<longleftrightarrow> (\<exists>mid post. post0 = mid @ post \<and> occurs_at kw pre mid post)"
  using word_match_lower [of post0 kw pre] by (simp add: rx_word_pattern)

lemma search_word_None:
  "search True (word_pattern kw) (lower text) = None
   \<longleftrightarrow> \<not> (\<exists>pre mid post. text = pre @ mid @ post \<and> occurs_at kw pre mid post)"
proof
  assume n: "search True (word_pattern kw) (lower text) = None"
  show "\<not> (\<exists>pre mid post. text = pre @ mid @ post \<and> occurs_at kw pre mid post)"
  proof
    assume "\<exists>pre mid post. text = pre @ mid @ post \<and> occurs_at kw pre mid post"
    then obtain pre mid post where h: "text = pre @ mid @ post" "occurs_at kw pre mid post" by blast
    have "lower text = lower pre @ lower (mid @ post)" using h(1) by (simp add: lower_append)
    with n have "rx True (word_pattern kw) (rev (lower pre), lower (mid @ post), []) = []"
      by (simp add: search_def search_from_None)
    with rx_word_lower [of kw pre "mid @ post"] h(2) show False by blast
  qed
next
  assume n: "\<not> (\<exists>pre mid post. text = pre @ mid @ post \<and> occurs_at kw pre mid post)"
  have "\<forall>pre' post'. lower text = pre' @ post' \<longrightarrow> rx True (word_pattern kw) (rev pre' @ [], post', []) = []"
  proof (intro allI impI)
    fix pre' post' assume "lower text = pre' @ post'"
    from lower_split [OF this] obtain pre post0 where
      s: "text = pre @ post0" "pre' = lower pre" "post' = lower post0" by blast
    have "\<not> (\<exists>mid post. post0 = mid @ post \<and> occurs_at kw pre mid post)"
      using n s(1) by auto
    with rx_word_lower [of kw pre post0] show "rx True (word_pattern kw) (rev pre' @ [], post', []) = []"
      by (simp add: s)
  qed
  then show "search True (word_pattern kw) (lower text) = None"
    by (simp add: search_def search_from_None)
qed

lemma search_word_Some:
  assumes "search True (word_pattern kw) (lower text) = Some m"
  shows "\<exists>pre mid post. text = pre @ mid @ post \<and> occurs_at kw pre mid post
           \<and> drop (m_end m) text = post
           \<and> (\<forall>pre2 mid2 post2. text = pre2 @ mid2 @ post2 \<and> occurs_at kw pre2 mid2 post2
                 \<longrightarrow> length pre \<le> length pre2)"
proof -
  obtain s e where m: "m = (s, e)" by (cases m)
  from search_from_Some [OF assms [unfolded search_def m]] obtain pre' post' where
    p: "lower text = pre' @ post'" "s = (rev pre' @ [], post', [])"
       "rx True (word_pattern kw) s \<noteq> []" "e = hd (rx True (word_pattern kw) s)"
       "\<forall>pre2' post2'. lower text = pre2' @ post2' \<and> length pre2' < length pre'
           \<longrightarrow> rx True (word_pattern kw) (rev pre2' @ [], post2', []) = []"
    by blast
  from lower_split [OF p(1)] obtain pre post0 where
    s: "text = pre @ post0" "pre' = lower pre" "post' = lower post0" by blast
  have nz: "rx True (word_pattern kw) (rev (lower pre), lower post0, []) \<noteq> []"
    using p(2) p(3) s by simp
  then obtain mid post where o: "post0 = mid @ post" "occurs_at kw pre mid post"
    using rx_word_lower [of kw pre post0] by blast
  have len: "length mid = length kw"
    using o(2) by (metis occurs_at_def length_lower)
  have "rx True (word_pattern kw) (rev (lower pre), lower post0, []) =
      [(rev (take (length kw) (lower post0)) @ rev (lower pre), drop (length kw) (lower post0), [])]"
  proof (cases "\<exists>mid post. lower post0 = mid @ post \<and> word_at kw (rev (lower pre)) mid post")
    case True
    then show ?thesis by (simp only: rx_word_pattern if_True)
  next
    case False
    then have "rx True (word_pattern kw) (rev (lower pre), lower post0, []) = []"
      by (simp only: rx_word_pattern if_False)
    with nz show ?thesis by simp
  qed
  then have e: "e = (rev (take (length kw) (lower post0)) @ rev (lower pre), drop (length kw) (lower post0), [])"
    using p(2) p(4) s by simp
  have "m_end m = length pre + length mid"
    using e len o(1) by (simp add: m m_end_def length_lower)
  then have d: "drop (m_end m) text = post" using s(1) o(1) by simp
  have left: "\<forall>pre2 mid2 post2. text = pre2 @ mid2 @ post2 \<and> occurs_at kw pre2 mid2 post2
                 \<longrightarrow> length pre \<le> length pre2"
  proof (intro allI impI)
    fix pre2 mid2 post2 assume h: "text = pre2 @ mid2 @ post2 \<and> occurs_at kw pre2 mid2 post2"
    show "length pre \<le> length pre2"
    proof (rule ccontr)
      assume "\<not> length pre \<le> length pre2"
      then have lt: "length (lower pre2) < length pre'" by (simp add: s length_lower)
      have "lower text = lower pre2 @ lower (mid2 @ post2)" using h by (simp add: lower_append)
      with p(5) lt have "rx True (word_pattern kw) (rev (lower pre2), lower (mid2 @ post2), []) = []"
        by simp
      with rx_word_lower [of kw pre2 "mid2 @ post2"] h show False by blast
    qed
  qed
  show ?thesis using s(1) o d left by auto
qed

lemma search_word_occurs:
  "kw \<noteq> [] \<Longrightarrow> search True (word_pattern kw) (lower text) = None \<longleftrightarrow> \<not> occurs_as_word kw text"
  by (simp add: search_word_None occurs_as_word_def)

lemma find_section_in_None:
  "find_section_in text kws = None \<longleftrightarrow> (\<forall>kw \<in> set kws. \<not> occurs_as_word kw text)"
proof (induction kws)
  case Nil
  then show ?case by simp
next
  case (Cons kw kws)
  show ?case
  proof (cases "kw = []")
    case True
    then show ?thesis using Cons.IH by (simp add: occurs_as_word_def)
  next
    case False
    show ?thesis
    proof (cases "search True (word_pattern kw) (lower text)")
      case None
      then show ?thesis using False Cons.IH search_word_occurs [OF False, of "text"] by simp
    next
      case (Some m)
      then have "occurs_as_word kw text" using search_word_occurs [OF False, of "text"] by simp
      then show ?thesis using False Some by (auto simp: Let_def split: option.splits)
    qed
  qed
qed

lemma find_section_in_Some:
  assumes "find_section_in text kws = Some sec"
  shows "\<exists>kw pre mid post. section_start kws text kw pre mid post \<and> sec = section_body post"
  using assms
proof (induction kws)
  case Nil
  then show ?case by simp
next
  case (Cons kw kws)
  have skip: "find_section_in text kws = Some sec \<Longrightarrow> \<not> occurs_as_word kw text \<Longrightarrow> ?case"
  proof -
    assume a: "find_section_in text kws = Some sec" and n: "\<not> occurs_as_word kw text"
    from Cons.IH [OF a] obtain k pre mid post where
      h: "section_start kws text k pre mid post" "sec = section_body post" by blast
    from h(1) obtain ks1 ks2 where
      k: "kws = ks1 @ k # ks2" "\<forall>x \<in> set ks1. \<not> occurs_as_word x text"
      by (auto simp: section_start_def)
    have "kw # kws = (kw # ks1) @ k # ks2 \<and> (\<forall>x \<in> set (kw # ks1). \<not> occurs_as_word x text)"
      using k n by simp
    then have "section_start (kw # kws) text k pre mid post"
      using h(1) unfolding section_start_def by blast
    then show ?case using h(2) by blast
  qed
  show ?case
  proof (cases "kw = []")
    case True
    then show ?thesis using Cons.prems skip by (simp add: occurs_as_word_def)
  next
    case False
    show ?thesis
    proof (cases "search True (word_pattern kw) (lower text)")
      case None
      then show ?thesis using False Cons.prems skip search_word_occurs [OF False, of "text"] by simp
    next
      case (Some m)
      from search_word_Some [OF Some] obtain pre mid post where
        o: "text = pre @ mid @ post" "occurs_at kw pre mid post" "drop (m_end m) text = post"
           "\<forall>pre2 mid2 post2. text = pre2 @ mid2 @ post2 \<and> occurs_at kw pre2 mid2 post2
                 \<longrightarrow> length pre \<le> length pre2"
        by blast
      have "kw # kws = [] @ kw # kws \<and> (\<forall>x \<in> set []. \<not> occurs_as_word x text)" by simp
      then have st: "section_start (kw # kws) text kw pre mid post"
        using False o unfolding section_start_def by blast
      have "sec = section_body post"
        using Cons.prems False Some o(3)
        by (auto simp: Let_def section_body_def split: option.splits)
      then show ?thesis using st by blast
    qed
  qed
qed

lemma occurs_as_word_nonempty: "occurs_as_word kw text \<Longrightarrow> text \<noteq> []"
  by (auto simp: occurs_as_word_def occurs_at_def lower_def)

lemma section_body_end: "section_end post (section_body post)"
proof (cases "search False end_pattern post")
  case None
  then have n: "\<forall>pre post'. post = pre @ post' \<longrightarrow> rx False end_pattern (rev pre, post', []) = []"
    by (simp add: search_def search_from_None)
  have "\<forall>k. \<not> boundary_at post k"
  proof
    fix k
    from n have "rx False end_pattern (rev (take k post), drop k post, []) = []"
      by (metis append_take_drop_id)
    then show "\<not> boundary_at post k" by (simp add: boundary_at_def)
  qed
  with None show ?thesis by (simp add: section_end_def section_body_def)
next
  case (Some m)
  obtain s e where m: "m = (s, e)" by (cases m) auto
  from search_from_Some [OF Some [unfolded search_def m]] obtain pre post' where
    p: "post = pre @ post'" "s = (rev pre, post', [])" "rx False end_pattern s \<noteq> []"
       "\<forall>pre' post''. post = pre' @ post'' \<and> length pre' < length pre
           \<longrightarrow> rx False end_pattern (rev pre', post'', []) = []"
    by auto
  let ?k = "length pre"
  have st: "m_start m = ?k" by (simp add: m m_start_def p(2))
  have b: "boundary_at post ?k" using p(1,2,3) by (simp add: boundary_at_def)
  have least: "\<forall>j < ?k. \<not> boundary_at post j"
  proof (intro allI impI)
    fix j assume j: "j < ?k"
    have "post = take j post @ drop j post" by simp
    moreover have "length (take j post) < length pre" using j p(1) by simp
    ultimately have "rx False end_pattern (rev (take j post), drop j post, []) = []"
      using p(4) by blast
    then show "\<not> boundary_at post j" by (simp add: boundary_at_def)
  qed
  have "section_body post = take ?k post" using Some st by (simp add: section_body_def)
  with b least show ?thesis unfolding section_end_def by blast
qed

lemma section_end_prefix:
  assumes "section_end post sec"
  shows "\<exists>n. sec = take n post"
  using assms unfolding section_end_def by blast

text \<open>
  Claim C7, amended, for texts over the code points U+0000 to U+00FF, where lowering a text
  keeps every character at its place. The locator returns \<open>None\<close> exactly when no keyword
  occurs in the text as a whole word, ignoring case. Otherwise the section starts immediately
  behind the leftmost occurrence of the first keyword of the list that occurs; it ends at the
  first position of the rest of the text at which a new-section boundary begins, however far
  away that is, and when no boundary begins anywhere in the rest it is the first 2000
  characters of the rest.
\<close>

theorem C7_find_section:
  "(find_section text keywords = None \<longleftrightarrow> (\<forall>kw \<in> set keywords. \<not> occurs_as_word kw text))
   \<and> (\<forall>sec. find_section text keywords = Some sec \<longrightarrow>
        (\<exists>kw pre mid post. section_start keywords text kw pre mid post
           \<and> section_end post sec))"
proof (intro conjI allI impI)
  show "find_section text keywords = None \<longleftrightarrow> (\<forall>kw \<in> set keywords. \<not> occurs_as_word kw text)"
  proof (cases "text = []")
    case True
    then show ?thesis using occurs_as_word_nonempty by (auto simp: find_section_def)
  next
    case False
    then show ?thesis by (simp add: find_section_def find_section_in_None)
  qed
next
  fix sec assume "find_section text keywords = Some sec"
  then have "find_section_in text keywords = Some sec"
    by (simp add: find_section_def split: if_splits)
  from find_section_in_Some [OF this] obtain kw pre mid post where
    h: "section_start keywords text kw pre mid post" "sec = section_body post" by blast
  from h(2) have "section_end post sec" by (simp add: section_body_end)
  with h(1) show "\<exists>kw pre mid post. section_start keywords text kw pre mid post
           \<and> section_end post sec"
    by blast
qed

lemma end_pattern_needs_newline: "c \<noteq> nl \<Longrightarrow> rx False end_pattern (l, c # r, []) = []"
  by (simp add: end_pattern_def lit_match_def)

lemma end_pattern_at_end: "rx False end_pattern (l, [], []) = []"
  by (simp add: end_pattern_def)

lemma end_pattern_newline_a: "rx False end_pattern (l, nl # CHR ''a'' # r, []) = []"
  by (simp add: end_pattern_def lit_match_def rx.simps(9) rstar_def rplus_def class_match_def
      in_class_def is_space_def is_decimal_def in_range_def nl_def)

lemma end_pattern_newline_end: "rx False end_pattern (l, [nl], []) = []"
  by (simp add: end_pattern_def lit_match_def rx.simps(9) rstar_def rplus_def)

lemma search_skips_body:
  "search_from False end_pattern l (replicate n CHR ''a'' @ r)
   = search_from False end_pattern (replicate n CHR ''a'' @ l) r"
proof (induction n arbitrary: l)
  case 0
  then show ?case by simp
next
  case (Suc n)
  have "search_from False end_pattern l (CHR ''a'' # replicate n CHR ''a'' @ r)
      = search_from False end_pattern (CHR ''a'' # l) (replicate n CHR ''a'' @ r)"
    by (simp add: end_pattern_needs_newline nl_def)
  also have "\<dots> = search_from False end_pattern (replicate n CHR ''a'' @ CHR ''a'' # l) r"
    by (rule Suc.IH)
  finally show ?case by (simp add: replicate_app_Cons_same)
qed

lemma end_pattern_numbered: "rx False end_pattern (l, nl # ''1.'', []) \<noteq> []"
  by code_simp

lemma search_long_rest:
  "map_option m_start (search False end_pattern (nl # replicate (Suc n) CHR ''a'' @ nl # ''1.''))
   = Some (Suc (Suc n))"
proof -
  have "search False end_pattern (nl # replicate (Suc n) CHR ''a'' @ nl # ''1.'')
      = search_from False end_pattern [nl] (replicate (Suc n) CHR ''a'' @ nl # ''1.'')"
    using end_pattern_newline_a [of "[]" "replicate n CHR ''a'' @ nl # ''1.''"]
    by (simp add: search_def)
  also have "\<dots> = search_from False end_pattern (replicate (Suc n) CHR ''a'' @ [nl]) (nl # ''1.'')"
    by (rule search_skips_body)
  finally have s: "search False end_pattern (nl # replicate (Suc n) CHR ''a'' @ nl # ''1.'')
      = search_from False end_pattern (replicate (Suc n) CHR ''a'' @ [nl]) (nl # ''1.'')" .
  obtain e es where "rx False end_pattern (replicate (Suc n) CHR ''a'' @ [nl], nl # ''1.'', []) = e # es"
    using end_pattern_numbered [of "replicate (Suc n) CHR ''a'' @ [nl]"]
    by (cases "rx False end_pattern (replicate (Suc n) CHR ''a'' @ [nl], nl # ''1.'', [])") auto
  then show ?thesis unfolding s by (simp add: m_start_def)
qed

lemma search_short_rest:
  "search False end_pattern (nl # replicate (Suc n) CHR ''a'') = None"
proof -
  have "search False end_pattern (nl # replicate (Suc n) CHR ''a'')
      = search_from False end_pattern [nl] (replicate (Suc n) CHR ''a'' @ [])"
    using end_pattern_newline_a [of "[]" "replicate n CHR ''a''"]
    by (simp add: search_def)
  also have "\<dots> = search_from False end_pattern (replicate (Suc n) CHR ''a'' @ [nl]) []"
    by (rule search_skips_body)
  also have "\<dots> = None" by (simp add: end_pattern_at_end)
  finally show ?thesis .
qed

lemma search_skills_prefix:
  "search True (word_pattern ''skills'') (''skills'' @ nl # t)
   = Some (([], ''skills'' @ nl # t, []), (''slliks'', nl # t, []))"
  by (simp add: search_def word_pattern_def lit_match_def lower_char_def is_upper_def
      in_range_def is_word_def is_decimal_def nl_def)

lemma lower_long_text: "lower long_text = long_text"
  by (simp add: long_text_def lower_def lower_char_def is_upper_def in_range_def nl_def)

text \<open>
  Claim C7, as stated, fails. In the text \<open>skills\<close>, a newline, 2001 letters, a newline
  and \<open>1.\<close> no new-section boundary lies within the 2000 characters that follow the
  keyword, yet the section returned is 2002 characters long: the boundary is searched in all
  of the remaining text, and the cut at 2000 characters is only made when none is found.
\<close>

theorem C7_counterexample:
  "search False end_pattern (take 2000 (drop 6 long_text)) = None
   \<and> map_option length (find_section long_text [''skills'']) = Some 2002"
proof
  have "take 2000 (drop 6 long_text) = nl # replicate 1999 CHR ''a''"
    by (simp add: long_text_def)
  also have "\<dots> = nl # replicate (Suc 1998) CHR ''a''" by simp
  finally show "search False end_pattern (take 2000 (drop 6 long_text)) = None"
    by (simp only: search_short_rest)
next
  have ne: "long_text \<noteq> []" by (simp add: long_text_def)
  have kw: "search True (word_pattern ''skills'') (lower long_text)
      = Some (([], long_text, []), (''slliks'', nl # replicate 2001 CHR ''a'' @ nl # ''1.'', []))"
    unfolding lower_long_text unfolding long_text_def by (rule search_skills_prefix)
  have rest: "drop 6 long_text = nl # replicate (Suc 2000) CHR ''a'' @ nl # ''1.''"
    by (simp add: long_text_def)
  from search_long_rest [of 2000] obtain m where
    m: "search False end_pattern (nl # replicate (Suc 2000) CHR ''a'' @ nl # ''1.'') = Some m"
       "m_start m = 2002"
    by auto
  have "find_section long_text [''skills'']
      = Some (take 2002 (nl # replicate (Suc 2000) CHR ''a'' @ nl # ''1.''))"
  proof -
    have me: "m_end (([], long_text, []), (''slliks'', nl # replicate 2001 CHR ''a'' @ nl # ''1.'', []))
        = 6"
      by (simp add: m_end_def)
    show ?thesis
      using ne kw rest m by (simp add: find_section_def me Let_def)
  qed
  then show "map_option length (find_section long_text [''skills'']) = Some 2002"
    by simp
qed

theorem C7_find_section_witness:
  "find_section short_text [''education''] = None
   \<and> \<not> occurs_as_word ''education'' short_text
   \<and> find_section short_text [''education'', ''skills''] = Some (nl # ''Python, SQL'')
   \<and> (occurs_as_word ''education'' short_text \<or> occurs_as_word ''skills'' short_text)"
proof -
  have a: "find_section short_text [''education''] = None" by code_simp
  have b: "find_section short_text [''education'', ''skills''] = Some (nl # ''Python, SQL'')"
    by code_simp
  show ?thesis
    using a b C7_find_section [of short_text "[''education'']"]
      C7_find_section [of short_text "[''education'', ''skills'']"]
    by auto
qed

section \<open>Totality of the structuring engine\<close>

text \<open>
  The only operation of the parser that can raise is \<open>.strip()\<close> on a group that took no part
  in a match. Each of the three patterns it is applied to sets its group in every match.
\<close>

lemma ebind_isl: "isl (ebind x f) \<longleftrightarrow> isl x \<or> (\<exists>v. x = Inr v \<and> isl (f v))"
  by (cases x) (simp_all add: ebind_def)

lemma pattern_name_candidates_total: "\<not> isl (pattern_name_candidates t)"
proof -
  have g: "sets_group 1 name_pattern" by (simp add: name_pattern_def)
  show ?thesis
    unfolding pattern_name_candidates_def Let_def
    by (auto simp: ebind_isl split: option.splits dest: search_group [OF _ g])
qed

lemma extract_name_total: "\<not> isl (extract_name env t)"
  unfolding extract_name_def Let_def
  by (simp add: ebind_isl pattern_name_candidates_total split: list.splits)

lemma extract_personal_info_total: "\<not> isl (extract_personal_info_enhanced env c t)"
  unfolding extract_personal_info_enhanced_def
  by (simp add: ebind_isl extract_name_total)

lemma company_after_separator_total: "\<not> isl (company_after_separator line e)"
proof -
  have g: "sets_group 1 company_at_pattern" by (simp add: company_at_pattern_def)
  show ?thesis
    unfolding company_after_separator_def
    by (auto simp: ebind_isl split: option.splits dest: search_group [OF _ g])
qed

lemma set_company_total: "\<not> isl (set_company orgs line e)"
  unfolding set_company_def Let_def
  by (simp add: company_after_separator_total)

lemma update_entry_total: "\<not> isl (update_entry orgs line e)"
  unfolding update_entry_def
  by (simp add: ebind_isl set_company_total)

lemma exp_step_total: "\<not> isl (exp_step orgs st line)"
  unfolding exp_step_def Let_def
  by (simp add: ebind_isl update_entry_total split: option.splits)

lemma exp_loop_total: "\<not> isl (exp_loop orgs st lines)"
proof (induction lines arbitrary: st)
  case Nil
  then show ?case by simp
next
  case (Cons line lines)
  then show ?case by (simp add: ebind_isl exp_step_total)
qed

lemma extract_experience_total: "\<not> isl (extract_experience_enhanced env t)"
  unfolding extract_experience_enhanced_def Let_def
  by (simp add: ebind_isl exp_loop_total)

lemma set_institution_total: "\<not> isl (set_institution line e)"
proof -
  have g: "sets_group 1 institution_pattern" by (simp add: institution_pattern_def)
  show ?thesis
    unfolding set_institution_def Let_def
    by (auto simp: ebind_isl split: option.splits dest: search_group [OF _ g])
qed

lemma edu_step_total: "\<not> isl (edu_step st line)"
  unfolding edu_step_def Let_def
  by (simp add: ebind_isl set_institution_total split: option.splits)

lemma edu_loop_total: "\<not> isl (edu_loop st lines)"
proof (induction lines arbitrary: st)
  case Nil
  then show ?case by simp
next
  case (Cons line lines)
  then show ?case by (simp add: ebind_isl edu_step_total)
qed

lemma extract_education_total: "\<not> isl (extract_education_enhanced t)"
  unfolding extract_education_enhanced_def
  by (simp add: ebind_isl edu_loop_total)

lemma validated_text: "\<not> truth_raises input \<Longrightarrow> validated input = Inr (text_of input)"
  by (cases input rule: validated.cases) (simp_all add: truth_raises_def text_of_def)

lemma parse_total: "\<not> truth_raises input \<Longrightarrow> \<not> isl (parse env input)"
  unfolding parse_def Let_def
  by (simp add: validated_text ebind_isl extract_personal_info_total extract_experience_total
        extract_education_total)

lemma parse_returns: "\<not> truth_raises input \<Longrightarrow> \<exists>res. parse env input = Inr res"
  using parse_total [of input env] by (cases "parse env input") simp_all

lemma parse_string_returns: "\<exists>res. parse env (Str s) = Inr res"
  by (rule parse_returns) (simp add: truth_raises_def)


lemma parse_not_string: "parse env (NotStr (Inr b)) = parse env (Str [])"
  by (simp add: parse_def)




section \<open>Properties of the phone extractor\<close>

lemma strip_id:
  assumes "s \<noteq> []" "\<not> is_space (hd s)" "\<not> is_space (last s)"
  shows "strip s = s"
proof -
  from assms(1,2) have a: "dropWhile is_space s = s" by (cases s) auto
  from assms(1,3) have "dropWhile is_space (rev s) = rev s"
    by (cases "rev s") (auto simp: last_rev [symmetric] hd_rev)
  with a show ?thesis by (simp add: strip_def)
qed

lemma context_before:
  "last_isdigit (drop (length l - 5) (take (length l) (rev l @ rest)))
   \<longleftrightarrow> last_isdigit (rev l)"
proof (cases l)
  case Nil
  then show ?thesis by (simp add: last_isdigit_def)
next
  case (Cons c cs)
  then show ?thesis by (simp add: last_isdigit_def)
qed

lemma context_after:
  "first_isdigit (take 5 (drop (length l + length mid) (rev l @ mid @ rest)))
   \<longleftrightarrow> first_isdigit rest"
  by (cases rest) (simp_all add: first_isdigit_def)

lemma check_phone_match:
  assumes e: "e \<in> set (rx ic a (l, r, []))"
    and t: "original_text = rev l @ r"
    and h: "head_ok not_space ic a" and la: "last_ok not_space ic a"
    and c: "10 < min_len a \<or> chars_ok is_decimal ic a"
    and p: "check_phone original_text ((l, r, []), e) = Some p"
  shows "valid_phone original_text p"
proof -
  obtain l' r' g' where e': "e = (l', r', g')" by (cases e) auto
  from rx_consumes [OF e] e' obtain mid where
    mid: "l' = rev mid @ l" "r = mid @ r'" by auto
  define M :: rmatch where "M = ((l, r, []), e)"
  have g0: "m_group0 M = mid" by (simp add: M_def m_group0_def e' mid)
  have st: "m_start M = length l" by (simp add: M_def m_start_def)
  have en: "m_end M = length l + length mid" by (simp add: M_def m_end_def e' mid)
  have ot: "original_text = rev l @ mid @ r'" using t mid by simp
  from p [folded M_def] have raw:
    "length (strip (m_group0 M)) = 10"
    "\<not> is_prefix ''19'' (strip (m_group0 M))" "\<not> is_prefix ''20'' (strip (m_group0 M))"
    "\<not> last_isdigit (drop (m_start M - 5) (take (m_start M) original_text))"
    "\<not> first_isdigit (take 5 (drop (m_end M) original_text))"
    "p = strip (m_group0 M)"
    by (simp_all add: check_phone_def Let_def split: if_splits)
  from raw(1) have len: "length (strip mid) = 10" by (simp only: g0)
  have ne: "mid \<noteq> []"
  proof
    assume "mid = []"
    then have "strip mid = []" by (simp add: strip_def)
    with len show False by simp
  qed
  from rx_head_ok [OF h e] ne mid e' have hd: "\<not> is_space (hd mid)"
    by (auto simp: not_space_def)
  from rx_last_ok [OF la e] ne mid e' have "\<not> is_space (last mid)"
    by (auto simp: not_space_def hd_append hd_rev)
  with ne hd have sid: "strip mid = mid" by (rule strip_id)
  from raw(6) have pm: "p = mid" by (simp only: g0 sid)
  from raw(2,3) have pre19: "\<not> is_prefix ''19'' mid" "\<not> is_prefix ''20'' mid"
    by (simp_all only: g0 sid not_False_eq_True)
  from raw(4) have "\<not> last_isdigit (drop (length l - 5) (take (length l) (rev l @ mid @ r')))"
    by (simp only: st ot not_False_eq_True)
  then have c1: "\<not> last_isdigit (rev l)"
    using context_before [of l "mid @ r'"] by blast
  from raw(5) have
    "\<not> first_isdigit (take 5 (drop (length l + length mid) (rev l @ mid @ r')))"
    by (simp only: en ot not_False_eq_True)
  then have c2: "\<not> first_isdigit r'"
    using context_after [of l mid r'] by blast
  note ctx = c1 c2
  from rx_min_len [OF e] e' mid have "min_len a \<le> length mid" by simp
  with len sid c have "chars_ok is_decimal ic a" by auto
  from rx_chars_ok [OF this e] e' mid have dec: "list_all is_decimal mid" by auto
  have "standalone original_text mid"
    unfolding standalone_def using t mid ctx
    by (intro exI [of _ "rev l"] exI [of _ r']) simp
  with len sid pm pre19 dec show ?thesis by (simp add: valid_phone_def)
qed

lemma first_phone_valid:
  assumes "first_phone original_text ms = Some p"
    and "\<And>m. m \<in> set ms \<Longrightarrow> check_phone original_text m = Some p
           \<Longrightarrow> valid_phone original_text p"
  shows "valid_phone original_text p"
  using assms
proof (induction ms)
  case Nil
  then show ?case by simp
next
  case (Cons m ms)
  show ?case
  proof (cases "check_phone original_text m")
    case None
    with Cons.prems(1) have f: "first_phone original_text ms = Some p" by simp
    have "\<And>m'. m' \<in> set ms \<Longrightarrow> check_phone original_text m' = Some p
            \<Longrightarrow> valid_phone original_text p"
      by (rule Cons.prems(2)) simp_all
    with Cons.IH f show ?thesis by blast
  next
    case (Some q)
    with Cons.prems(1) have "q = p" by simp
    with Some Cons.prems(2) [of m] show ?thesis by simp
  qed
qed

lemma finditer_phone_valid:
  assumes f: "first_phone original_text (finditer ic a original_text) = Some p"
    and h: "head_ok not_space ic a" and la: "last_ok not_space ic a"
    and c: "10 < min_len a \<or> chars_ok is_decimal ic a"
  shows "valid_phone original_text p"
proof (rule first_phone_valid [OF f])
  fix m
  assume m: "m \<in> set (finditer ic a original_text)"
    and cp: "check_phone original_text m = Some p"
  from find_from_matches [OF m [unfolded finditer_def]] obtain pre post e where
    q: "original_text = pre @ post" "m = ((rev pre, post, []), e)"
       "e \<in> set (rx ic a (rev pre, post, []))" by auto
  show "valid_phone original_text p"
    by (rule check_phone_match [OF q(3) _ h la c cp [unfolded q(2)]]) (simp add: q(1))
qed

lemma phone_loop_valid:
  assumes "phone_loop original_text ps = Some p"
    and "\<And>a. a \<in> set ps \<Longrightarrow> head_ok not_space False a \<and> last_ok not_space False a
           \<and> (10 < min_len a \<or> chars_ok is_decimal False a)"
  shows "valid_phone original_text p"
  using assms
proof (induction ps)
  case Nil
  then show ?case by simp
next
  case (Cons a ps)
  show ?case
  proof (cases "first_phone original_text (finditer False a original_text)")
    case None
    with Cons.prems(1) have f: "phone_loop original_text ps = Some p" by simp
    have "\<And>a'. a' \<in> set ps \<Longrightarrow> head_ok not_space False a' \<and> last_ok not_space False a'
           \<and> (10 < min_len a' \<or> chars_ok is_decimal False a')"
      using Cons.prems(2) by simp
    with Cons.IH f show ?thesis by blast
  next
    case (Some q)
    with Cons.prems(1) have "q = p" by simp
    with Some Cons.prems(2) [of a] show ?thesis
      by (intro finditer_phone_valid [of original_text False a p]) simp_all
  qed
qed

lemma decimal_not_space: "is_decimal c \<Longrightarrow> \<not> is_space c"
  by (auto simp: is_decimal_def is_space_def in_range_nat)

lemma class_Dig: "class_match False [Dig] c \<longleftrightarrow> is_decimal c"
  by (simp add: class_match_def in_class_def)

lemma phone_patterns_shape:
  assumes "a \<in> set phone_patterns"
  shows "head_ok not_space False a \<and> last_ok not_space False a
           \<and> (10 < min_len a \<or> chars_ok is_decimal False a)"
proof -
  have sp: "\<not> is_space CHR ''+''" "\<not> is_space CHR ''(''" "\<not> is_space CHR '')''"
    by (simp_all add: is_space_def in_range_nat)
  from assms show ?thesis
    by (auto simp: phone_patterns_def ropt_def digits_def phone_sep_def class_Dig not_space_def
          lit_match_def decimal_not_space sp)
qed

lemma extract_phone_valid:
  assumes "extract_phone original_text = Some p"
  shows "valid_phone original_text p"
proof (rule phone_loop_valid)
  from assms show "phone_loop original_text phone_patterns = Some p"
    by (simp add: extract_phone_def)
next
  fix a
  assume "a \<in> set phone_patterns"
  then show "head_ok not_space False a \<and> last_ok not_space False a
           \<and> (10 < min_len a \<or> chars_ok is_decimal False a)"
    by (rule phone_patterns_shape)
qed

lemma parse_phone:
  assumes "parse env input = Inr res"
  shows "phone (personal res) = extract_phone (text_of input)"
proof -
  from assms have "\<not> truth_raises input"
    by (cases input rule: validated.cases) (simp_all add: parse_def ebind_def truth_raises_def)
  with assms show ?thesis
    by (auto simp: parse_def validated_text ebind_def Let_def extract_personal_info_enhanced_def
          parsed_data.defs split: sum.splits)
qed

text \<open>
  Claim C10. Whatever the input, the phone field of the profile that \<open>parse\<close> returns is
  \<open>None\<close> or a string of exactly ten decimal digits that begins with neither \<open>19\<close> nor
  \<open>20\<close> and that stands in the input text with no digit right before it and none right
  behind it. A number written with separators, such as \<open>(555) 123-4567\<close>, is never the
  phone field.
\<close>

theorem C10_phone_ten_digits:
  assumes "parse env input = Inr res"
  shows "(phone (personal res) = None
          \<or> (\<exists>p. phone (personal res) = Some p \<and> valid_phone (text_of input) p))
         \<and> phone (personal res) \<noteq> Some ''(555) 123-4567''"
proof (cases "phone (personal res)")
  case None
  then show ?thesis by simp
next
  case (Some p)
  with parse_phone [OF assms] have "extract_phone (text_of input) = Some p" by simp
  then have v: "valid_phone (text_of input) p" by (rule extract_phone_valid)
  then have "length p = 10" by (simp add: valid_phone_def)
  then have "p \<noteq> ''(555) 123-4567''" by auto
  with Some v show ?thesis by simp
qed

theorem C10_phone_ten_digits_witness:
  "(\<exists>res. parse env0 (Str phone_text) = Inr res
      \<and> phone (personal res) = Some ''5551234567''
      \<and> valid_phone phone_text ''5551234567'')
   \<and> (\<exists>res. parse env0 (Str ''(555) 123-4567'') = Inr res \<and> phone (personal res) = None)"
proof
  from parse_string_returns obtain res where res: "parse env0 (Str phone_text) = Inr res" by blast
  have "extract_phone phone_text = Some ''5551234567''" by code_simp
  with parse_phone [OF res] have p: "phone (personal res) = Some ''5551234567''"
    by (simp add: text_of_def)
  with C10_phone_ten_digits [OF res] have "valid_phone phone_text ''5551234567''"
    by (simp add: text_of_def)
  with res p show "\<exists>res. parse env0 (Str phone_text) = Inr res
      \<and> phone (personal res) = Some ''5551234567''
      \<and> valid_phone phone_text ''5551234567''"
    by blast
next
  from parse_string_returns obtain res where
    res: "parse env0 (Str ''(555) 123-4567'') = Inr res" by blast
  have "extract_phone ''(555) 123-4567'' = None" by code_simp
  with parse_phone [OF res] have "phone (personal res) = None"
    by (simp add: text_of_def)
  with res show "\<exists>res. parse env0 (Str ''(555) 123-4567'') = Inr res \<and> phone (personal res) = None"
    by blast
qed

section \<open>Properties of the skills extractor\<close>

text \<open>
  \<open>list(set(skills))\<close> keeps each collected string once. Every collected string is a skill
  of the vocabulary, in the vocabulary's casing, or a token that equals no skill of the
  vocabulary when case is ignored.
\<close>

lemma list_of_set_spec:
  "distinct (list_of_set env xs) \<and> set (list_of_set env xs) = set xs"
  by (simp add: list_of_set_def Let_def)

lemma parse_skills:
  assumes "parse env input = Inr res"
  shows "skills res = extract_skills_enhanced env (preprocess_text (text_of input))"
proof -
  from assms have "\<not> truth_raises input"
    by (cases input rule: validated.cases) (simp_all add: parse_def ebind_def truth_raises_def)
  with assms show ?thesis
    by (auto simp: parse_def validated_text ebind_def Let_def parsed_data.defs split: sum.splits)
qed

lemma common_skills_nonempty: "[] \<notin> set common_skills"
  by (simp add: common_skills_def)

lemma common_skills_lower_distinct: "distinct (map lower common_skills)"
  by code_simp

lemma add_skill_inv:
  "list_all vocab_or_new acc \<Longrightarrow> vocab_or_new x \<Longrightarrow> list_all vocab_or_new (add_skill acc x)"
  by (simp add: add_skill_def)

lemma vocabulary_fold_inv:
  "list_all vocab_or_new acc \<Longrightarrow> set ks \<subseteq> set common_skills \<Longrightarrow>
   list_all vocab_or_new
     (foldl (\<lambda>acc skill. if P skill then add_skill acc skill else acc) acc ks)"
proof (induction ks arbitrary: acc)
  case Nil
  then show ?case by simp
next
  case (Cons k ks)
  from Cons.prems(2) have "vocab_or_new k" by (simp add: vocab_or_new_def)
  with Cons.prems(1) have "list_all vocab_or_new (if P k then add_skill acc k else acc)"
    by (simp add: add_skill_inv)
  from Cons.IH [OF this] Cons.prems(2) show ?case by simp
qed

lemma vocabulary_skills_inv: "list_all vocab_or_new (vocabulary_skills t)"
  unfolding vocabulary_skills_def by (rule vocabulary_fold_inv) simp_all

lemma add_token_inv:
  assumes "list_all vocab_or_new acc"
  shows "list_all vocab_or_new (add_token acc t)"
proof (cases "find (\<lambda>known. known \<noteq> [] \<and> lower known = lower t) common_skills")
  case None
  then have "\<forall>k \<in> set common_skills. lower k \<noteq> lower t"
    using common_skills_nonempty by (auto simp: find_None_iff)
  then have "vocab_or_new t" by (auto simp: vocab_or_new_def)
  with assms None show ?thesis by (simp add: add_token_def add_skill_inv)
next
  case (Some known)
  then have "known \<in> set common_skills" by (auto simp: find_Some_iff)
  then have "vocab_or_new known" by (simp add: vocab_or_new_def)
  with assms Some show ?thesis by (simp add: add_token_def add_skill_inv)
qed

lemma add_tokens_inv:
  "list_all vocab_or_new acc \<Longrightarrow> list_all vocab_or_new (foldl add_token acc ts)"
  by (induction ts arbitrary: acc) (simp_all add: add_token_inv)

lemma add_line_skills_inv:
  "list_all vocab_or_new acc \<Longrightarrow> list_all vocab_or_new (add_line_skills acc line)"
  by (simp add: add_line_skills_def add_tokens_inv split: option.splits)

lemma add_lines_inv:
  "list_all vocab_or_new acc \<Longrightarrow> list_all vocab_or_new (foldl add_line_skills acc ls)"
  by (induction ls arbitrary: acc) (simp_all add: add_line_skills_inv)

lemma collected_skills_inv: "list_all vocab_or_new (collected_skills t)"
  unfolding collected_skills_def Let_def
  by (rule add_lines_inv) (rule vocabulary_skills_inv)

lemma same_case_outside_vocabulary:
  assumes x: "vocab_or_new x" and y: "vocab_or_new y"
    and ne: "x \<noteq> y" and eq: "lower x = lower y"
  shows "lower x \<notin> lower ` set common_skills"
proof
  assume i: "lower x \<in> lower ` set common_skills"
  with x have xs: "x \<in> set common_skills" by (simp add: vocab_or_new_def)
  from i eq y have ys: "y \<in> set common_skills" by (simp add: vocab_or_new_def)
  from common_skills_lower_distinct have "inj_on lower (set common_skills)"
    by (simp add: distinct_map)
  from inj_onD [OF this eq xs ys] have "x = y" .
  with ne show False by simp
qed

lemma collected_foo: "collected_skills (preprocess_text ''Foo, FOO'') = [''Foo'', ''FOO'']"
  by code_simp

lemma collected_py:
  "collected_skills (preprocess_text ''Python, python, Foo, FOO'') = [''Python'', ''Foo'', ''FOO'']"
  by code_simp

text \<open>
  Claim C8, amended. The skills of the returned profile are pairwise different as strings.
  Every one of them is a skill of the vocabulary, spelled as the vocabulary spells it, or a
  string that equals no skill of the vocabulary even when case is ignored. So two different
  entries that are equal when case is ignored can both be there only if they equal no skill
  of the vocabulary when case is ignored. Nothing holds of the order: it is the one in which
  the runtime enumerates a set.
\<close>

theorem C8_skills_distinct:
  assumes "parse env input = Inr res"
  shows "distinct (skills res)
     \<and> (\<forall>x \<in> set (skills res).
           x \<in> set common_skills \<or> lower x \<notin> lower ` set common_skills)
     \<and> (\<forall>x \<in> set (skills res). \<forall>y \<in> set (skills res).
           x \<noteq> y \<and> lower x = lower y \<longrightarrow> lower x \<notin> lower ` set common_skills)"
proof -
  let ?xs = "collected_skills (preprocess_text (text_of input))"
  from parse_skills [OF assms] have s: "skills res = list_of_set env ?xs"
    by (simp add: extract_skills_enhanced_def)
  with list_of_set_spec [of env ?xs]
  have d: "distinct (skills res)" and e: "set (skills res) = set ?xs" by simp_all
  have v: "\<forall>x \<in> set (skills res). vocab_or_new x"
    using collected_skills_inv [of "preprocess_text (text_of input)"] e
    by (simp add: list_all_iff)
  then have m: "\<forall>x \<in> set (skills res).
      x \<in> set common_skills \<or> lower x \<notin> lower ` set common_skills"
    by (simp add: vocab_or_new_def)
  have "\<forall>x \<in> set (skills res). \<forall>y \<in> set (skills res).
           x \<noteq> y \<and> lower x = lower y \<longrightarrow> lower x \<notin> lower ` set common_skills"
  proof (intro ballI impI)
    fix x y
    assume "x \<in> set (skills res)" "y \<in> set (skills res)" and xy: "x \<noteq> y \<and> lower x = lower y"
    with v have "vocab_or_new x" "vocab_or_new y" by simp_all
    with xy show "lower x \<notin> lower ` set common_skills"
      by (intro same_case_outside_vocabulary [of x y]) simp_all
  qed
  with d m show ?thesis by simp
qed

text \<open>
  Claim C8 as stated fails: the tokens \<open>Foo\<close> and \<open>FOO\<close> are equal when case is ignored,
  and both are skills of the profile, whichever order the runtime chooses.
\<close>

theorem C8_counterexample:
  "\<forall>env. \<exists>res. parse env (Str ''Foo, FOO'') = Inr res
      \<and> set (skills res) = {''Foo'', ''FOO''} \<and> lower ''Foo'' = lower ''FOO''"
proof
  fix env
  from parse_string_returns obtain res where res: "parse env (Str ''Foo, FOO'') = Inr res" by blast
  from parse_skills [OF res] have "skills res = list_of_set env [''Foo'', ''FOO'']"
    by (simp add: extract_skills_enhanced_def text_of_def collected_foo)
  with list_of_set_spec [of env "[''Foo'', ''FOO'']"]
  have "set (skills res) = {''Foo'', ''FOO''}" by simp
  moreover have "lower ''Foo'' = lower ''FOO''" by code_simp
  ultimately show "\<exists>res. parse env (Str ''Foo, FOO'') = Inr res
      \<and> set (skills res) = {''Foo'', ''FOO''} \<and> lower ''Foo'' = lower ''FOO''"
    using res by blast
qed

theorem C8_skills_distinct_witness:
  "\<exists>res. parse env0 (Str ''Python, python, Foo, FOO'') = Inr res
      \<and> distinct (skills res) \<and> set (skills res) = {''Python'', ''Foo'', ''FOO''}
      \<and> ''Python'' \<in> set common_skills
      \<and> lower ''Foo'' \<notin> lower ` set common_skills"
proof -
  from parse_string_returns obtain res where
    res: "parse env0 (Str ''Python, python, Foo, FOO'') = Inr res" by blast
  from parse_skills [OF res]
  have "skills res = list_of_set env0 [''Python'', ''Foo'', ''FOO'']"
    by (simp add: extract_skills_enhanced_def text_of_def collected_py)
  with list_of_set_spec [of env0 "[''Python'', ''Foo'', ''FOO'']"]
  have m: "set (skills res) = {''Python'', ''Foo'', ''FOO''}" by simp
  have ne: "''Foo'' \<noteq> ''FOO''" by simp
  have lo: "lower ''Foo'' = lower ''FOO''" by code_simp
  have py: "''Python'' \<in> set common_skills" by (simp add: common_skills_def)
  from C8_skills_distinct [OF res] m ne lo
  have "distinct (skills res)" "lower ''Foo'' \<notin> lower ` set common_skills"
    by auto
  with res m py show ?thesis by blast
qed

end
